theory Spec2Isabelle
  imports Main "HOL-Library.AList"
begin

section \<open>Python values\<close>

text \<open>
  The dispatcher of \<^verbatim>\<open>rllib/env/remote_base_env.py\<close> moves untyped Python values
  around: what a sub-environment returns from \<^verbatim>\<open>reset\<close> and \<^verbatim>\<open>step\<close> is
  only inspected by \<^verbatim>\<open>isinstance(ret, tuple)\<close>, \<^verbatim>\<open>len(ret)\<close>, subscripts,
  unpacking and \<^verbatim>\<open>ob.keys()\<close>. The values are a datatype with one constructor per
  Python type the code can tell apart. Hashable dictionary keys (agent identifiers and the
  reserved \<^verbatim>\<open>"__all__"\<close>) are strings or integers. No arithmetic is done on floats:
  \<open>VFloat m e\<close> stands for the double \<open>m * 2 ^ e\<close> and is only carried around.
\<close>

datatype pykey = KStr string | KInt int

datatype pyval =
    VNone
  | VBool bool
  | VInt int
  | VFloat int int
  | VStr string
  | VExc string "pyval list"
  | VTuple "pyval list"
  | VList "pyval list"
  | VDict "(pykey \<times> pyval) list"
  | VObj nat

text \<open>
  \<open>VExc cls args\<close> is an exception object of class \<open>cls\<close> whose \<^verbatim>\<open>args\<close> tuple is
  \<open>args\<close>; \<open>VObj n\<close> is any other opaque object (an array, a space).

  Every exception that leaves a method is a value of \<open>error\<close>. The constructor records
  the place that raises: \<open>WorkerFault\<close> is the exception that \<^verbatim>\<open>ray.get\<close> raised and
  \<^verbatim>\<open>poll\<close> re-raises, \<open>AssertionError\<close> is raised by the arity checks of
  \<^verbatim>\<open>poll\<close>, \<open>UnpackValueError\<close> and \<open>UnpackTypeError\<close> by a tuple assignment,
  \<open>NotInList\<close> is the ValueError of \<^verbatim>\<open>list.index\<close>, \<open>FactoryFault\<close> is whatever
  \<^verbatim>\<open>make_env\<close> raised.
\<close>

datatype error =
    WorkerFault string "pyval list"
  | AssertionError string
  | UnpackValueError
  | UnpackTypeError
  | NotInList
  | KeyError
  | IndexError
  | TypeError
  | AttributeError
  | FactoryFault string "pyval list"

text \<open>What \<^verbatim>\<open>ray.get(obj_ref)\<close>, or a method of a wrapped environment, does.\<close>

datatype outcome = Returns pyval | Raises string "pyval list"

definition DUMMY_AGENT_ID :: pykey where
  \<comment> \<open>Modelled from the spec: the constant \<^verbatim>\<open>_DUMMY_AGENT_ID\<close> is imported from
      \<^verbatim>\<open>ray.rllib.env.base_env\<close>, which is not among the sources; the spec calls it the
      single reserved agent key. The proofs use of its value only that it is not
      \<^verbatim>\<open>"__all__"\<close>.\<close>
  "DUMMY_AGENT_ID = KStr ''agent0''"

definition ALL_KEY :: pykey where
  "ALL_KEY = KStr ''__all__''"

definition ASYNC_RESET_RETURN :: pyval where
  \<comment> \<open>Modelled from the spec: the sentinel \<^verbatim>\<open>ASYNC_RESET_RETURN\<close> of
      \<^verbatim>\<open>ray.rllib.env.base_env\<close> (the spec's PENDING).\<close>
  "ASYNC_RESET_RETURN = VStr ''async_reset_return''"

subsection \<open>Sequences and dictionaries\<close>

definition py_pos :: "'a list \<Rightarrow> int \<Rightarrow> nat option" where
  \<comment> \<open>The position a Python list subscript reads: negative subscripts count from the end,
      anything else out of range raises IndexError (\<open>None\<close>).\<close>
  "py_pos xs i =
     (let n = int (length xs) in
      if 0 \<le> i \<and> i < n then Some (nat i)
      else if - n \<le> i \<and> i < 0 then Some (nat (n + i))
      else None)"

definition py_nth :: "'a list \<Rightarrow> int \<Rightarrow> 'a option" where
  "py_nth xs i = map_option (\<lambda>k. xs ! k) (py_pos xs i)"

definition py_set :: "'a list \<Rightarrow> int \<Rightarrow> 'a \<Rightarrow> 'a list" where
  \<comment> \<open>\<^verbatim>\<open>xs[i] = v\<close>; only used where \<open>py_pos xs i\<close> is defined.\<close>
  "py_set xs i v = (case py_pos xs i of None \<Rightarrow> xs | Some k \<Rightarrow> xs[k := v])"

fun list_index :: "'a list \<Rightarrow> 'a \<Rightarrow> nat option" where
  \<comment> \<open>\<^verbatim>\<open>xs.index(a)\<close>: the first position holding \<open>a\<close>; ValueError (\<open>None\<close>) if none.\<close>
  "list_index [] a = None"
| "list_index (x # xs) a = (if x = a then Some 0 else map_option Suc (list_index xs a))"

definition key_val :: "pykey \<Rightarrow> pyval" where
  "key_val k = (case k of KStr s \<Rightarrow> VStr s | KInt i \<Rightarrow> VInt i)"

definition py_iter :: "pyval \<Rightarrow> pyval list option" where
  \<comment> \<open>The elements iteration yields; \<open>None\<close> for a value that is not iterable.\<close>
  "py_iter v =
     (case v of
        VTuple xs \<Rightarrow> Some xs
      | VList xs \<Rightarrow> Some xs
      | VDict kvs \<Rightarrow> Some (map (\<lambda>kv. key_val (fst kv)) kvs)
      | VStr s \<Rightarrow> Some (map (\<lambda>c. VStr [c]) s)
      | _ \<Rightarrow> None)"

definition py_getitem :: "pyval \<Rightarrow> int \<Rightarrow> error + pyval" where
  \<comment> \<open>\<^verbatim>\<open>v[i]\<close> for an integer literal \<open>i\<close>.\<close>
  "py_getitem v i =
     (case v of
        VTuple xs \<Rightarrow> (case py_nth xs i of None \<Rightarrow> Inl IndexError | Some x \<Rightarrow> Inr x)
      | VList xs \<Rightarrow> (case py_nth xs i of None \<Rightarrow> Inl IndexError | Some x \<Rightarrow> Inr x)
      | VStr s \<Rightarrow> (case py_nth s i of None \<Rightarrow> Inl IndexError | Some c \<Rightarrow> Inr (VStr [c]))
      | VDict kvs \<Rightarrow> (case map_of kvs (KInt i) of None \<Rightarrow> Inl KeyError | Some x \<Rightarrow> Inr x)
      | _ \<Rightarrow> Inl TypeError)"

definition py_getkey :: "pyval \<Rightarrow> pykey \<Rightarrow> error + pyval" where
  \<comment> \<open>\<^verbatim>\<open>v[k]\<close> for a string key \<open>k\<close>: a dictionary lookup; a sequence refuses the key.\<close>
  "py_getkey v k =
     (case v of
        VDict kvs \<Rightarrow> (case map_of kvs k of None \<Rightarrow> Inl KeyError | Some x \<Rightarrow> Inr x)
      | _ \<Rightarrow> Inl TypeError)"

definition dict_keys :: "pyval \<Rightarrow> pykey list option" where
  \<comment> \<open>\<^verbatim>\<open>v.keys()\<close>; AttributeError (\<open>None\<close>) unless \<open>v\<close> is a dictionary.\<close>
  "dict_keys v = (case v of VDict kvs \<Rightarrow> Some (map fst kvs) | _ \<Rightarrow> None)"

definition has_key :: "pykey \<Rightarrow> pyval \<Rightarrow> bool" where
  "has_key k v = (case v of VDict kvs \<Rightarrow> k \<in> set (map fst kvs) | _ \<Rightarrow> False)"

type_synonym canonical = "pyval \<times> pyval \<times> pyval \<times> pyval \<times> pyval"

definition unpack5 :: "pyval \<Rightarrow> error + canonical" where
  \<comment> \<open>\<^verbatim>\<open>ob, rew, terminated, truncated, info = ret\<close>\<close>
  "unpack5 ret =
     (case py_iter ret of
        None \<Rightarrow> Inl UnpackTypeError
      | Some xs \<Rightarrow>
          (case xs of
             [a, b, c, d, e] \<Rightarrow> Inr (a, b, c, d, e)
           | _ \<Rightarrow> Inl UnpackValueError))"

definition unpack2 :: "pyval \<Rightarrow> error + pyval \<times> pyval" where
  \<comment> \<open>\<^verbatim>\<open>obs, info = ...\<close>\<close>
  "unpack2 ret =
     (case py_iter ret of
        None \<Rightarrow> Inl UnpackTypeError
      | Some xs \<Rightarrow> (case xs of [a, b] \<Rightarrow> Inr (a, b) | _ \<Rightarrow> Inl UnpackValueError))"

section \<open>The result normalizer inside \<^verbatim>\<open>poll\<close>\<close>

definition arity_msg :: string where
  "arity_msg = ''Your gymnasium.Env seems to NOT return the correct number of return values for `step()` (needs to return 5 values: obs, reward, terminated, truncated and info) or `reset()` (needs to return 2 values: obs and info)!''"

definition single_msg_multi :: string where
  "single_msg_multi = ''Your gymnasium.Env seems to only return a single value upon `reset()`! Must return 2 (obs AND infos).''"

definition single_msg :: string where
  "single_msg = ''Your gymnasium.Env seems to only return a single value upon `reset()`! Must return 2 (obs and infos).''"

definition decode_multi :: "pyval \<Rightarrow> error + canonical" where
  \<comment> \<open>Lines 195--219: the multi-agent branch; \<open>VNone\<close> is the initial \<^verbatim>\<open>None\<close> of
      \<^verbatim>\<open>rew, terminated, truncated, info\<close>.\<close>
  "decode_multi ret =
     (case ret of
        VTuple xs \<Rightarrow>
          (if length xs = 5 then
             Inr (xs ! 0, xs ! 1, xs ! 2, xs ! 3, xs ! 4)
           else if length xs = 2 then
             Inr (xs ! 0, VNone, VNone, VNone, xs ! 1)
           else Inl (AssertionError arity_msg))
      | _ \<Rightarrow> Inl (AssertionError single_msg_multi))"

definition decode_single :: "pyval \<Rightarrow> error + canonical" where
  \<comment> \<open>Lines 220--247: the single-agent branch.\<close>
  "decode_single ret =
     (case ret of
        VTuple xs \<Rightarrow>
          (if length xs = 5 then
             Inr (VDict [(DUMMY_AGENT_ID, xs ! 0)],
                  VDict [(DUMMY_AGENT_ID, xs ! 1)],
                  VDict [(DUMMY_AGENT_ID, xs ! 2), (ALL_KEY, xs ! 2)],
                  VDict [(DUMMY_AGENT_ID, xs ! 3), (ALL_KEY, xs ! 3)],
                  VDict [(DUMMY_AGENT_ID, xs ! 4)])
           else if length xs = 2 then
             Inr (VDict [(DUMMY_AGENT_ID, xs ! 0)], VNone, VNone, VNone,
                  VDict [(DUMMY_AGENT_ID, xs ! 1)])
           else Inl (AssertionError arity_msg))
      | _ \<Rightarrow> Inl (AssertionError single_msg))"

definition reset_defaults :: "canonical \<Rightarrow> error + canonical" where
  \<comment> \<open>Lines 249--255: \<^verbatim>\<open>if rew is None\<close> the rewards are 0 for every key of
      \<^verbatim>\<open>ob\<close> and both flags are \<^verbatim>\<open>{"__all__": False}\<close>.\<close>
  "reset_defaults r =
     (case r of (ob, rew, terminated, truncated, info) \<Rightarrow>
        if rew = VNone then
          (case dict_keys ob of
             None \<Rightarrow> Inl AttributeError
           | Some ks \<Rightarrow>
               Inr (ob, VDict (map (\<lambda>agent_id. (agent_id, VInt 0)) ks),
                    VDict [(ALL_KEY, VBool False)],
                    VDict [(ALL_KEY, VBool False)], info))
        else Inr r)"

definition normalize_ret :: "bool \<Rightarrow> bool \<Rightarrow> pyval \<Rightarrow> error + canonical" where
  \<comment> \<open>Lines 192--261, from \<^verbatim>\<open>make_env_creates_actors\<close>, \<^verbatim>\<open>multiagent\<close> and
      \<^verbatim>\<open>ret\<close>.\<close>
  "normalize_ret creates_actors multi ret =
     (if creates_actors then
        (case (if multi then decode_multi ret else decode_single ret) of
           Inl e \<Rightarrow> Inl e
         | Inr r \<Rightarrow> reset_defaults r)
      else unpack5 ret)"

section \<open>The worker proxies\<close>

text \<open>
  \<^verbatim>\<open>_RemoteSingleAgentEnv\<close> and \<^verbatim>\<open>_RemoteMultiAgentEnv\<close> run inside the remote
  actor around the environment that \<^verbatim>\<open>make_env\<close> built. Each function below takes
  what the wrapped environment's method returned and gives what the proxy's method returns
  or raises.
\<close>

definition single_reset :: "pyval \<Rightarrow> error + pyval" where
  \<comment> \<open>\<^verbatim>\<open>_RemoteSingleAgentEnv.reset\<close>\<close>
  "single_reset obs_and_info =
     (case py_getitem obs_and_info 0 of
        Inl e \<Rightarrow> Inl e
      | Inr ob \<Rightarrow>
          (case py_getitem obs_and_info 1 of
             Inl e \<Rightarrow> Inl e
           | Inr i \<Rightarrow>
               Inr (VTuple [VDict [(DUMMY_AGENT_ID, ob)],
                            VDict [(DUMMY_AGENT_ID, VFloat 0 0)],
                            VDict [(ALL_KEY, VBool False)],
                            VDict [(ALL_KEY, VBool False)],
                            VDict [(DUMMY_AGENT_ID, i)]])))"

definition single_step :: "pyval \<Rightarrow> error + pyval" where
  \<comment> \<open>\<^verbatim>\<open>_RemoteSingleAgentEnv.step\<close>, from \<^verbatim>\<open>results\<close>. Every element is wrapped
      under the dummy agent, the five dictionaries are unpacked, and \<^verbatim>\<open>"__all__"\<close> is
      added to the two flags.\<close>
  "single_step results =
     (case py_iter results of
        None \<Rightarrow> Inl TypeError
      | Some xs \<Rightarrow>
          (case map (\<lambda>x. [(DUMMY_AGENT_ID, x)]) xs of
             [obs, rew, terminated, truncated, info] \<Rightarrow>
               (case map_of terminated DUMMY_AGENT_ID of
                  None \<Rightarrow> Inl KeyError
                | Some t \<Rightarrow>
                    (case map_of truncated DUMMY_AGENT_ID of
                       None \<Rightarrow> Inl KeyError
                     | Some tr \<Rightarrow>
                         Inr (VTuple [VDict obs, VDict rew,
                                      VDict (AList.update ALL_KEY t terminated),
                                      VDict (AList.update ALL_KEY tr truncated),
                                      VDict info])))
           | _ \<Rightarrow> Inl UnpackValueError))"

definition single_action :: "pyval \<Rightarrow> error + pyval" where
  \<comment> \<open>\<^verbatim>\<open>action[_DUMMY_AGENT_ID]\<close>, the argument the proxy passes to the wrapped
      \<^verbatim>\<open>step\<close>.\<close>
  "single_action action = py_getkey action DUMMY_AGENT_ID"

text \<open>
  The multi-agent proxy has one field of its own, the set \<^verbatim>\<open>agent_ids\<close>, empty when
  the proxy is built.
\<close>

definition multi_reset :: "pyval \<Rightarrow> pykey set \<Rightarrow> (error + pyval) \<times> pykey set" where
  \<comment> \<open>\<^verbatim>\<open>_RemoteMultiAgentEnv.reset\<close>, from what \<^verbatim>\<open>self.env.reset\<close> returned.\<close>
  "multi_reset r agent_ids =
     (case unpack2 r of
        Inl e \<Rightarrow> (Inl e, agent_ids)
      | Inr (obs, info) \<Rightarrow>
          (case dict_keys obs of
             None \<Rightarrow> (Inl AttributeError, agent_ids)
           | Some ks \<Rightarrow>
               (Inr (VTuple [obs, VDict (map (\<lambda>agent_id. (agent_id, VFloat 0 0)) ks),
                             VDict [(ALL_KEY, VBool False)],
                             VDict [(ALL_KEY, VBool False)], info]),
                agent_ids \<union> set ks)))"

definition multi_step :: "pyval \<Rightarrow> pykey set \<Rightarrow> (error + pyval) \<times> pykey set" where
  \<comment> \<open>\<^verbatim>\<open>_RemoteMultiAgentEnv.step\<close> returns what the environment returned.\<close>
  "multi_step r agent_ids = (Inr r, agent_ids)"

datatype proxy_call = ResetCall outcome | StepCall outcome

definition multi_call :: "proxy_call \<Rightarrow> pykey set \<Rightarrow> (error + pyval) \<times> pykey set" where
  \<comment> \<open>One method call on the proxy, given what the wrapped environment does in it; an
      exception of the environment leaves the method at once.\<close>
  "multi_call c agent_ids =
     (case c of
        ResetCall (Raises cls args) \<Rightarrow> (Inl (WorkerFault cls args), agent_ids)
      | ResetCall (Returns r) \<Rightarrow> multi_reset r agent_ids
      | StepCall (Raises cls args) \<Rightarrow> (Inl (WorkerFault cls args), agent_ids)
      | StepCall (Returns r) \<Rightarrow> multi_step r agent_ids)"

fun multi_run :: "proxy_call list \<Rightarrow> pykey set \<Rightarrow> pykey set" where
  \<comment> \<open>The field \<^verbatim>\<open>agent_ids\<close> after the actor has executed the calls in order.\<close>
  "multi_run [] agent_ids = agent_ids"
| "multi_run (c # cs) agent_ids = multi_run cs (snd (multi_call c agent_ids))"

definition multi_get_agent_ids :: "proxy_call list \<Rightarrow> pykey set" where
  \<comment> \<open>\<^verbatim>\<open>_RemoteMultiAgentEnv.get_agent_ids\<close> of a proxy built with an empty set that has
      executed \<open>cs\<close>.\<close>
  "multi_get_agent_ids cs = multi_run cs {}"

section \<open>The dispatcher \<^verbatim>\<open>RemoteBaseEnv\<close>\<close>

text \<open>
  A slot of the pool holds either a handle of a ray actor or, when the caller supplied
  one, a local environment object; \<^verbatim>\<open>isinstance(_, ray.actor.ActorHandle)\<close> tells them
  apart and only a handle has methods with \<^verbatim>\<open>.remote\<close>. Handles are equal when their
  actor identifiers are.
\<close>

datatype sub_env = ActorHandle nat | LocalEnv nat

definition is_actor :: "sub_env \<Rightarrow> bool" where
  "is_actor a = (case a of ActorHandle _ \<Rightarrow> True | LocalEnv _ \<Rightarrow> False)"

text \<open>The remote method calls the dispatcher issues, with their arguments.\<close>

datatype rcall =
    CallReset pyval pyval
  | CallStep pyval
  | CallClose
  | CallTerminate
  | CallObservationSpace
  | CallActionSpace

text \<open>
  What lies outside the file is a parameter: \<open>make_env E n idx\<close> is what the \<open>n\<close>-th
  building of a sub-environment does when \<^verbatim>\<open>self.make_env(idx)\<close> runs in the
  dispatcher's process, \<open>launch E n idx\<close> is the identifier of the actor that
  \<^verbatim>\<open>_RemoteMultiAgentEnv.remote(self.make_env, idx)\<close> or its single-agent sibling
  creates in the \<open>n\<close>-th building, \<open>spaces E x\<close> is the pair of spaces read from \<open>x\<close>.
  The callback \<^verbatim>\<open>on_sub_environment_created\<close> of an owning rollout worker is taken to
  return; its arguments are evaluated as the source evaluates them. The timeout
  \<^verbatim>\<open>poll_timeout\<close> only reaches \<^verbatim>\<open>ray.wait\<close>, whose answers are inputs of
  \<open>poll\<close>, and is left out.
\<close>

record ray =
  make_env :: "nat \<Rightarrow> int \<Rightarrow> error + sub_env"
  launch :: "nat \<Rightarrow> int \<Rightarrow> nat"
  spaces :: "sub_env \<Rightarrow> error + pyval \<times> pyval"

text \<open>
  The fields of \<^verbatim>\<open>self\<close>. Two more record what the dispatcher did to the outside:
  \<open>calls\<close> lists every remote call issued, in order, and the object reference a call
  returns is its position in that list; \<open>built\<close> counts the runs of
  \<^verbatim>\<open>_make_sub_env\<close> that reached the factory.
\<close>

record dispatcher =
  num_envs :: int
  multiagent :: bool
  has_worker :: bool
  restart_failed_sub_environments :: bool
  make_env_creates_actors :: bool
  observation_space :: pyval
  action_space :: pyval
  actors :: "sub_env list"
  pending :: "(nat \<times> sub_env) list"
  calls :: "(sub_env \<times> rcall) list"
  built :: nat

definition remote :: "sub_env \<Rightarrow> error + rcall \<Rightarrow> dispatcher \<Rightarrow> (error + nat) \<times> dispatcher" where
  \<comment> \<open>\<^verbatim>\<open>a.method.remote(args)\<close>: the attribute \<^verbatim>\<open>remote\<close> is looked up before the
      arguments are evaluated.\<close>
  "remote a c s =
     (case a of
        LocalEnv _ \<Rightarrow> (Inl AttributeError, s)
      | ActorHandle _ \<Rightarrow>
          (case c of
             Inl e \<Rightarrow> (Inl e, s)
           | Inr c' \<Rightarrow> (Inr (length (calls s)), s\<lparr>calls := calls s @ [(a, c')]\<rparr>)))"

definition make_sub_env :: "ray \<Rightarrow> int \<Rightarrow> dispatcher \<Rightarrow> (error + sub_env) \<times> dispatcher" where
  \<comment> \<open>\<^verbatim>\<open>_make_sub_env(idx)\<close>. With actors made by \<^verbatim>\<open>make_env\<close> and an owning worker,
      the callback's argument is \<^verbatim>\<open>self.actors[idx]\<close>.\<close>
  "make_sub_env E idx s =
     (let s' = s\<lparr>built := built s + 1\<rparr> in
      if make_env_creates_actors s then
        (case make_env E (built s) idx of
           Inl e \<Rightarrow> (Inl e, s')
         | Inr sub_env \<Rightarrow>
             if has_worker s then
               (case py_nth (actors s) idx of
                  None \<Rightarrow> (Inl IndexError, s')
                | Some _ \<Rightarrow> (Inr sub_env, s'))
             else (Inr sub_env, s'))
      else (Inr (ActorHandle (launch E (built s) idx)), s'))"

lemma make_sub_env_same [simp]:
  "num_envs (snd (make_sub_env E idx s)) = num_envs s"
  "actors (snd (make_sub_env E idx s)) = actors s"
  "pending (snd (make_sub_env E idx s)) = pending s"
  "make_env_creates_actors (snd (make_sub_env E idx s)) = make_env_creates_actors s"
  "multiagent (snd (make_sub_env E idx s)) = multiagent s"
  "restart_failed_sub_environments (snd (make_sub_env E idx s)) = restart_failed_sub_environments s"
  "has_worker (snd (make_sub_env E idx s)) = has_worker s"
  "calls (snd (make_sub_env E idx s)) = calls s"
  by (simp_all add: make_sub_env_def Let_def split: sum.splits option.splits)

lemma make_sub_env_frame:
  "make_sub_env E idx s = (r, s') \<Longrightarrow> num_envs s' = num_envs s \<and> actors s' = actors s"
  by (metis make_sub_env_same(1,2) snd_conv)

function extend_actors :: "ray \<Rightarrow> dispatcher \<Rightarrow> error + dispatcher" where
  \<comment> \<open>Lines 98--99: \<^verbatim>\<open>while len(self.actors) < self.num_envs\<close>.\<close>
  "extend_actors E s =
     (if int (length (actors s)) < num_envs s then
        (case make_sub_env E (int (length (actors s))) s of
           (Inl e, s') \<Rightarrow> Inl e
         | (Inr a, s') \<Rightarrow> extend_actors E (s'\<lparr>actors := actors s' @ [a]\<rparr>))
      else Inr s)"
  by pat_completeness auto
termination
  by (relation "measure (\<lambda>(E, s). nat (num_envs s - int (length (actors s))))")
     (auto dest!: make_sub_env_frame [OF sym])

declare extend_actors.simps [simp del]

fun build_actors :: "ray \<Rightarrow> nat list \<Rightarrow> dispatcher \<Rightarrow> error + sub_env list \<times> dispatcher" where
  \<comment> \<open>Line 111: \<^verbatim>\<open>[self._make_sub_env(i) for i in range(self.num_envs)]\<close>, over the list
      of indices.\<close>
  "build_actors E [] s = Inr ([], s)"
| "build_actors E (i # is) s =
     (case make_sub_env E (int i) s of
        (Inl e, s') \<Rightarrow> Inl e
      | (Inr a, s') \<Rightarrow>
          (case build_actors E is s' of
             Inl e \<Rightarrow> Inl e
           | Inr (as, s'') \<Rightarrow> Inr (a # as, s'')))"

fun reset_all :: "sub_env list \<Rightarrow> dispatcher \<Rightarrow> error + dispatcher" where
  \<comment> \<open>Lines 130--132: \<^verbatim>\<open>{a.reset.remote(): a for a in self.actors}\<close>, collected in
      \<open>pending\<close>.\<close>
  "reset_all [] s = Inr s"
| "reset_all (a # as) s =
     (case remote a (Inr (CallReset VNone VNone)) s of
        (Inl e, s') \<Rightarrow> Inl e
      | (Inr obj_ref, s') \<Rightarrow>
          reset_all as (s'\<lparr>pending := AList.update obj_ref a (pending s')\<rparr>))"

definition query_spaces :: "ray \<Rightarrow> sub_env list \<Rightarrow> dispatcher \<Rightarrow> error + dispatcher" where
  \<comment> \<open>Lines 113--123: the spaces come from the first supplied environment, or from two
      remote calls on \<^verbatim>\<open>self.actors[0]\<close>.\<close>
  "query_spaces E existing_envs s =
     (case existing_envs of
        x # _ \<Rightarrow>
          (case spaces E x of
             Inl e \<Rightarrow> Inl e
           | Inr (osp, asp) \<Rightarrow> Inr (s\<lparr>observation_space := osp, action_space := asp\<rparr>))
      | [] \<Rightarrow>
          (case actors s of
             [] \<Rightarrow> Inl IndexError
           | a # _ \<Rightarrow>
               (case remote a (Inr CallObservationSpace) s of
                  (Inl e, s1) \<Rightarrow> Inl e
                | (Inr _, s1) \<Rightarrow>
                    (case remote a (Inr CallActionSpace) s1 of
                       (Inl e, s2) \<Rightarrow> Inl e
                     | (Inr _, s2) \<Rightarrow>
                         (case spaces E a of
                            Inl e \<Rightarrow> Inl e
                          | Inr (osp, asp) \<Rightarrow>
                              Inr (s2\<lparr>observation_space := osp, action_space := asp\<rparr>))))))"

definition init ::
  "ray \<Rightarrow> int \<Rightarrow> bool \<Rightarrow> sub_env list \<Rightarrow> bool \<Rightarrow> bool \<Rightarrow> error + dispatcher" where
  \<comment> \<open>\<^verbatim>\<open>__init__(make_env, num_envs, multiagent, _, existing_envs, worker,
      restart_failed_sub_environments)\<close>; \<open>worker\<close> says whether a rollout worker was
      given. An exception leaves no dispatcher.\<close>
  "init E n multi existing_envs worker restart =
     (let s = \<lparr>num_envs = n, multiagent = multi, has_worker = worker,
               restart_failed_sub_environments = restart,
               make_env_creates_actors = False,
               observation_space = VNone, action_space = VNone,
               actors = [], pending = [], calls = [], built = 0\<rparr> in
      case
        (if existing_envs \<noteq> [] \<and> is_actor (hd existing_envs) then
           extend_actors E (s\<lparr>make_env_creates_actors := True, actors := existing_envs\<rparr>)
         else
           (case build_actors E [0..<nat n] s of
              Inl e \<Rightarrow> Inl e
            | Inr (as, s') \<Rightarrow> query_spaces E existing_envs (s'\<lparr>actors := as\<rparr>)))
      of
        Inl e \<Rightarrow> Inl e
      | Inr s' \<Rightarrow> reset_all (actors s') s')"

subsection \<open>\<^verbatim>\<open>try_restart\<close>, \<^verbatim>\<open>try_reset\<close>, \<^verbatim>\<open>send_actions\<close>\<close>

definition try_restart :: "ray \<Rightarrow> int \<Rightarrow> dispatcher \<Rightarrow> (error + unit) \<times> dispatcher" where
  \<comment> \<open>An exception of \<^verbatim>\<open>self.actors[env_id].close.remote()\<close> is caught and logged:
      the IndexError of the subscript, and the AttributeError of \<^verbatim>\<open>.close\<close> on a
      proxy, since \<^verbatim>\<open>_RemoteSingleAgentEnv\<close> and \<^verbatim>\<open>_RemoteMultiAgentEnv\<close> define
      no \<^verbatim>\<open>close\<close>; an actor that \<^verbatim>\<open>make_env\<close> made is an environment and has
      one. Line 317 subscripts again and calls \<^verbatim>\<open>__ray_terminate__.remote()\<close>
      unguarded; line 320 stores the new sub-environment.\<close>
  "try_restart E env_id s =
     (let s1 = (case py_nth (actors s) env_id of
                  None \<Rightarrow> s
                | Some a \<Rightarrow>
                    if make_env_creates_actors s then snd (remote a (Inr CallClose) s)
                    else s) in
      case py_nth (actors s1) env_id of
        None \<Rightarrow> (Inl IndexError, s1)
      | Some a \<Rightarrow>
          (case remote a (Inr CallTerminate) s1 of
             (Inl e, s2) \<Rightarrow> (Inl e, s2)
           | (Inr _, s2) \<Rightarrow>
               (case make_sub_env E env_id s2 of
                  (Inl e, s3) \<Rightarrow> (Inl e, s3)
                | (Inr sub_env, s3) \<Rightarrow>
                    (Inr (), s3\<lparr>actors := py_set (actors s3) env_id sub_env\<rparr>))))"

definition try_reset ::
  "int \<Rightarrow> pyval \<Rightarrow> pyval \<Rightarrow> dispatcher \<Rightarrow> (error + pyval \<times> pyval) \<times> dispatcher" where
  "try_reset env_id seed options s =
     (case py_nth (actors s) env_id of
        None \<Rightarrow> (Inl IndexError, s)
      | Some actor \<Rightarrow>
          (case remote actor (Inr (CallReset seed options)) s of
             (Inl e, s') \<Rightarrow> (Inl e, s')
           | (Inr obj_ref, s') \<Rightarrow>
               (Inr (ASYNC_RESET_RETURN, ASYNC_RESET_RETURN),
                s'\<lparr>pending := AList.update obj_ref actor (pending s')\<rparr>)))"

fun send_actions :: "(int \<times> pyval) list \<Rightarrow> dispatcher \<Rightarrow> (error + unit) \<times> dispatcher" where
  \<comment> \<open>The items of \<^verbatim>\<open>action_dict\<close> in order; an exception keeps what was submitted
      before it.\<close>
  "send_actions [] s = (Inr (), s)"
| "send_actions ((env_id, actions) # rest) s =
     (case py_nth (actors s) env_id of
        None \<Rightarrow> (Inl IndexError, s)
      | Some actor \<Rightarrow>
          (case remote actor
                  (if \<not> multiagent s \<and> make_env_creates_actors s then
                     map_sum id CallStep (py_getkey actions DUMMY_AGENT_ID)
                   else Inr (CallStep actions)) s of
             (Inl e, s') \<Rightarrow> (Inl e, s')
           | (Inr obj_ref, s') \<Rightarrow>
               send_actions rest (s'\<lparr>pending := AList.update obj_ref actor (pending s')\<rparr>)))"

subsection \<open>\<^verbatim>\<open>poll\<close>\<close>

text \<open>
  \<^verbatim>\<open>ray.wait\<close> and \<^verbatim>\<open>ray.get\<close> are inputs. The answers of the successive
  \<^verbatim>\<open>ray.wait\<close> calls of one \<^verbatim>\<open>poll\<close> are a list of lists of object references;
  the loop \<^verbatim>\<open>while not ready\<close> takes the first answer that is not empty and has no
  value when the answers run out, which stands for a call that never returns.
  \<open>res obj_ref\<close> is what \<^verbatim>\<open>ray.get(obj_ref)\<close> does.
\<close>

fun wait_loop :: "nat list list \<Rightarrow> nat list option" where
  "wait_loop [] = None"
| "wait_loop (ready # later) = (if ready = [] then wait_loop later else Some ready)"

record poll_acc =
  obs :: "(nat \<times> pyval) list"
  rewards :: "(nat \<times> pyval) list"
  terminateds :: "(nat \<times> pyval) list"
  truncateds :: "(nat \<times> pyval) list"
  infos :: "(nat \<times> pyval) list"
  env_ids :: "nat set"

definition empty_acc :: poll_acc where
  "empty_acc = \<lparr>obs = [], rewards = [], terminateds = [], truncateds = [], infos = [],
                env_ids = {}\<rparr>"

definition fault_record :: "string \<Rightarrow> pyval list \<Rightarrow> pyval" where
  \<comment> \<open>Lines 181--187: the tuple that stands in for the result of a failed task.\<close>
  "fault_record cls args =
     VTuple [VExc cls args, VDict [], VDict [(ALL_KEY, VBool True)],
             VDict [(ALL_KEY, VBool False)], VDict []]"

definition get_or_restart ::
  "ray \<Rightarrow> (nat \<Rightarrow> outcome) \<Rightarrow> nat \<Rightarrow> nat \<Rightarrow> dispatcher \<Rightarrow> (error + pyval) \<times> dispatcher" where
  \<comment> \<open>Lines 169--190. With restarts enabled the handler first evaluates
      \<^verbatim>\<open>e.args[0]\<close> for the log, then calls \<^verbatim>\<open>try_restart(env_id)\<close>.\<close>
  "get_or_restart E res env_id obj_ref s =
     (case res obj_ref of
        Returns ret \<Rightarrow> (Inr ret, s)
      | Raises cls args \<Rightarrow>
          if restart_failed_sub_environments s then
            (case args of
               [] \<Rightarrow> (Inl IndexError, s)
             | _ # _ \<Rightarrow>
                 (case try_restart E (int env_id) s of
                    (Inl e, s') \<Rightarrow> (Inl e, s')
                  | (Inr _, s') \<Rightarrow> (Inr (fault_record cls args), s')))
          else (Inl (WorkerFault cls args), s))"

definition poll_body ::
  "ray \<Rightarrow> (nat \<Rightarrow> outcome) \<Rightarrow> nat \<Rightarrow> dispatcher \<Rightarrow> poll_acc \<Rightarrow> (error + poll_acc) \<times> dispatcher" where
  \<comment> \<open>One round of \<^verbatim>\<open>for obj_ref in ready\<close>, lines 160--266.\<close>
  "poll_body E res obj_ref s b =
     (case map_of (pending s) obj_ref of
        None \<Rightarrow> (Inl KeyError, s)
      | Some actor \<Rightarrow>
          (let s1 = s\<lparr>pending := AList.delete obj_ref (pending s)\<rparr> in
           case list_index (actors s1) actor of
             None \<Rightarrow> (Inl NotInList, s1)
           | Some env_id \<Rightarrow>
               (case get_or_restart E res env_id obj_ref s1 of
                  (Inl e, s2) \<Rightarrow> (Inl e, s2)
                | (Inr ret, s2) \<Rightarrow>
                    (case normalize_ret (make_env_creates_actors s2) (multiagent s2) ret of
                       Inl e \<Rightarrow> (Inl e, s2)
                     | Inr (ob, rew, terminated, truncated, info) \<Rightarrow>
                         (Inr \<lparr>obs = AList.update env_id ob (obs b),
                               rewards = AList.update env_id rew (rewards b),
                               terminateds = AList.update env_id terminated (terminateds b),
                               truncateds = AList.update env_id truncated (truncateds b),
                               infos = AList.update env_id info (infos b),
                               env_ids = insert env_id (env_ids b)\<rparr>, s2)))))"

fun poll_loop ::
  "ray \<Rightarrow> (nat \<Rightarrow> outcome) \<Rightarrow> nat list \<Rightarrow> dispatcher \<Rightarrow> poll_acc \<Rightarrow> (error + poll_acc) \<times> dispatcher" where
  "poll_loop E res [] s b = (Inr b, s)"
| "poll_loop E res (obj_ref # ready) s b =
     (case poll_body E res obj_ref s b of
        (Inl e, s') \<Rightarrow> (Inl e, s')
      | (Inr b', s') \<Rightarrow> poll_loop E res ready s' b')"

type_synonym multi_env_dict = "(nat \<times> pyval) list"

type_synonym batch =
  "multi_env_dict \<times> multi_env_dict \<times> multi_env_dict \<times> multi_env_dict \<times> multi_env_dict
   \<times> multi_env_dict"

definition poll ::
  "ray \<Rightarrow> nat list list \<Rightarrow> (nat \<Rightarrow> outcome) \<Rightarrow> dispatcher \<Rightarrow> ((error + batch) \<times> dispatcher) option" where
  \<comment> \<open>\<open>None\<close>: the call never returns. Otherwise the exception raised or the six
      mappings returned, and the dispatcher afterwards.\<close>
  "poll E waits res s =
     (case wait_loop waits of
        None \<Rightarrow> None
      | Some ready \<Rightarrow>
          (case poll_loop E res ready s empty_acc of
             (Inl e, s') \<Rightarrow> Some (Inl e, s')
           | (Inr b, s') \<Rightarrow>
               Some (Inr (obs b, rewards b, terminateds b, truncateds b, infos b, []), s')))"

definition poll_env_ids :: "ray \<Rightarrow> nat list list \<Rightarrow> (nat \<Rightarrow> outcome) \<Rightarrow> dispatcher \<Rightarrow> nat set" where
  \<comment> \<open>The local \<^verbatim>\<open>env_ids\<close> of a \<^verbatim>\<open>poll\<close> that returns: the slots whose object
      references were resolved in the call (line 268 logs it).\<close>
  "poll_env_ids E waits res s =
     (case wait_loop waits of
        None \<Rightarrow> {}
      | Some ready \<Rightarrow>
          (case poll_loop E res ready s empty_acc of
             (Inl e, s') \<Rightarrow> {}
           | (Inr b, s') \<Rightarrow> env_ids b))"

subsection \<open>\<^verbatim>\<open>get_agent_ids\<close>\<close>

definition get_agent_ids ::
  "(sub_env \<Rightarrow> error + pykey set) \<Rightarrow> dispatcher \<Rightarrow> error + pykey set" where
  \<comment> \<open>\<open>q a\<close> is what \<^verbatim>\<open>ray.get(a.get_agent_ids.remote())\<close> gives.\<close>
  "get_agent_ids q s =
     (if multiagent s then
        (case actors s of [] \<Rightarrow> Inl IndexError | a # _ \<Rightarrow> q a)
      else Inr {DUMMY_AGENT_ID})"

section \<open>The Pending Table, the caller's discipline, reachable dispatchers\<close>

definition outstanding :: "dispatcher \<Rightarrow> nat \<Rightarrow> (nat \<times> sub_env) list" where
  \<comment> \<open>The entries of the Pending Table whose target is slot \<open>env_id\<close>, the slot being
      computed as \<^verbatim>\<open>poll\<close> computes it: \<^verbatim>\<open>self.actors.index(actor)\<close>.\<close>
  "outstanding s env_id =
     filter (\<lambda>p. list_index (actors s) (snd p) = Some env_id) (pending s)"

definition idle :: "dispatcher \<Rightarrow> sub_env \<Rightarrow> bool" where
  \<comment> \<open>No task of the worker is waiting to be polled.\<close>
  "idle s a = (a \<notin> snd ` set (pending s))"

definition targets :: "dispatcher \<Rightarrow> (int \<times> pyval) list \<Rightarrow> sub_env list" where
  \<comment> \<open>The workers an \<^verbatim>\<open>action_dict\<close> addresses.\<close>
  "targets s action_dict = List.map_filter (\<lambda>p. py_nth (actors s) (fst p)) action_dict"

definition send_allowed :: "dispatcher \<Rightarrow> (int \<times> pyval) list \<Rightarrow> bool" where
  "send_allowed s action_dict =
     (distinct (targets s action_dict) \<and> list_all (idle s) (targets s action_dict))"

definition reset_allowed :: "dispatcher \<Rightarrow> int \<Rightarrow> bool" where
  "reset_allowed s env_id =
     (case py_nth (actors s) env_id of None \<Rightarrow> True | Some a \<Rightarrow> idle s a)"

text \<open>
  The dispatchers a caller can hold who never submits a second task for a worker whose
  first is not polled yet. The constructor itself submits one \<^verbatim>\<open>reset\<close> per slot, so
  the discipline asks of a construction that no worker fills two slots.
\<close>

inductive reachable :: "ray \<Rightarrow> dispatcher \<Rightarrow> bool" for E :: ray where
  r_init: "init E n multi existing_envs worker restart = Inr s \<Longrightarrow> distinct (actors s)
           \<Longrightarrow> reachable E s"
| r_poll: "reachable E s \<Longrightarrow> poll E waits res s = Some (r, s') \<Longrightarrow> reachable E s'"
| r_send: "reachable E s \<Longrightarrow> send_allowed s action_dict
           \<Longrightarrow> send_actions action_dict s = (r, s') \<Longrightarrow> reachable E s'"
| r_reset: "reachable E s \<Longrightarrow> reset_allowed s env_id
           \<Longrightarrow> try_reset env_id seed options s = (r, s') \<Longrightarrow> reachable E s'"
| r_restart: "reachable E s \<Longrightarrow> try_restart E env_id s = (r, s') \<Longrightarrow> reachable E s'"

definition slot :: "dispatcher \<Rightarrow> nat \<Rightarrow> nat option" where
  \<comment> \<open>The slot of the worker an object reference of the Pending Table belongs to.\<close>
  "slot s obj_ref =
     (case map_of (pending s) obj_ref of
        None \<Rightarrow> None
      | Some actor \<Rightarrow> list_index (actors s) actor)"

definition fresh_workers :: "ray \<Rightarrow> sub_env set \<Rightarrow> bool" where
  \<comment> \<open>No worker the factory builds is one of \<open>A\<close>: a rebuilt worker has a new identity.\<close>
  "fresh_workers E A =
     (\<forall>n idx. (\<forall>a. make_env E n idx = Inr a \<longrightarrow> a \<notin> A) \<and> ActorHandle (launch E n idx) \<notin> A)"

definition keys_are :: "poll_acc \<Rightarrow> nat set \<Rightarrow> bool" where
  \<comment> \<open>The five mappings collected so far have the keys \<open>K\<close>.\<close>
  "keys_are b K =
     (fst ` set (obs b) = K \<and> fst ` set (rewards b) = K \<and> fst ` set (terminateds b) = K
      \<and> fst ` set (truncateds b) = K \<and> fst ` set (infos b) = K)"

section \<open>What the specification says of the agent identifiers\<close>

definition reset_completes :: "proxy_call \<Rightarrow> bool" where
  \<comment> \<open>The call is a \<^verbatim>\<open>reset\<close> of the proxy and it returns.\<close>
  "reset_completes c =
     (case c of
        ResetCall _ \<Rightarrow> (case fst (multi_call c {}) of Inl _ \<Rightarrow> False | Inr _ \<Rightarrow> True)
      | StepCall _ \<Rightarrow> False)"

definition observation_keys :: "proxy_call \<Rightarrow> pykey set" where
  \<comment> \<open>The keys of the observation dictionary the wrapped environment returned first in
      the call.\<close>
  "observation_keys c =
     (case c of
        ResetCall (Returns r) \<Rightarrow>
          (case py_iter r of Some (VDict kvs # _) \<Rightarrow> fst ` set kvs | _ \<Rightarrow> {})
      | StepCall (Returns r) \<Rightarrow>
          (case py_iter r of Some (VDict kvs # _) \<Rightarrow> fst ` set kvs | _ \<Rightarrow> {})
      | _ \<Rightarrow> {})"

definition seen_in_resets :: "proxy_call list \<Rightarrow> pykey set" where
  \<comment> \<open>The agent identifiers that were observation keys of some completed reset.\<close>
  "seen_in_resets cs = \<Union> (set (map observation_keys (filter reset_completes cs)))"

definition has_all :: "canonical \<Rightarrow> bool" where
  \<comment> \<open>\<^verbatim>\<open>"__all__"\<close> is a key of both flag mappings of the record.\<close>
  "has_all r =
     (case r of (ob, rew, terminated, truncated, info) \<Rightarrow>
        has_key ALL_KEY terminated \<and> has_key ALL_KEY truncated)"

section \<open>Example pools\<close>

definition E0 :: ray where
  \<comment> \<open>A factory that never fails: its \<open>n\<close>-th worker is actor \<open>100 + n\<close>.\<close>
  "E0 = \<lparr>make_env = (\<lambda>n idx. Inr (ActorHandle (100 + n))),
         launch = (\<lambda>n idx. 100 + n),
         spaces = (\<lambda>x. Inr (VObj 0, VObj 1))\<rparr>"

definition boom :: outcome where
  "boom = Raises ''RuntimeError'' [VStr ''boom'']"

definition pool_single :: dispatcher where
  \<comment> \<open>Two single-agent actors supplied by the caller, restarts enabled.\<close>
  "pool_single =
     \<lparr>num_envs = 2, multiagent = False, has_worker = False,
      restart_failed_sub_environments = True, make_env_creates_actors = True,
      observation_space = VNone, action_space = VNone,
      actors = [ActorHandle 0, ActorHandle 1],
      pending = [(0, ActorHandle 0), (1, ActorHandle 1)],
      calls = [(ActorHandle 0, CallReset VNone VNone), (ActorHandle 1, CallReset VNone VNone)],
      built = 0\<rparr>"

definition res_single :: "nat \<Rightarrow> outcome" where
  \<comment> \<open>The task of worker 0 fails, worker 1 returns from its \<^verbatim>\<open>reset\<close>.\<close>
  "res_single h = (if h = 0 then boom else Returns (VTuple [VObj 7, VObj 8]))"

definition pool3 :: "bool \<Rightarrow> dispatcher" where
  \<comment> \<open>Three multi-agent actors supplied by the caller.\<close>
  "pool3 restart =
     \<lparr>num_envs = 3, multiagent = True, has_worker = False,
      restart_failed_sub_environments = restart, make_env_creates_actors = True,
      observation_space = VNone, action_space = VNone,
      actors = [ActorHandle 0, ActorHandle 1, ActorHandle 2],
      pending = [(0, ActorHandle 0), (1, ActorHandle 1), (2, ActorHandle 2)],
      calls = [(ActorHandle 0, CallReset VNone VNone), (ActorHandle 1, CallReset VNone VNone),
               (ActorHandle 2, CallReset VNone VNone)],
      built = 0\<rparr>"

definition reset_a :: pyval where
  "reset_a = VTuple [VDict [(KStr ''a'', VObj 7)], VDict []]"

definition res3 :: "nat \<Rightarrow> outcome" where
  \<comment> \<open>The task of worker 1 fails, workers 0 and 2 return from their \<^verbatim>\<open>reset\<close>.\<close>
  "res3 h = (if h = 1 then boom else Returns reset_a)"

definition res_short :: "nat \<Rightarrow> outcome" where
  \<comment> \<open>Worker 1 returns four values.\<close>
  "res_short h =
     (if h = 1 then Returns (VTuple [VObj 7, VInt 1, VBool False, VDict []])
      else Returns reset_a)"

definition step_without_all :: pyval where
  \<comment> \<open>A step result of a multi-agent environment whose flags name agent \<^verbatim>\<open>a\<close> only.\<close>
  "step_without_all =
     VTuple [VDict [(KStr ''a'', VObj 7)], VDict [(KStr ''a'', VFloat 1 0)],
             VDict [(KStr ''a'', VBool False)], VDict [(KStr ''a'', VBool False)], VDict []]"

definition step_reward_none :: pyval where
  \<comment> \<open>The same step result with \<^verbatim>\<open>None\<close> for the reward.\<close>
  "step_reward_none =
     VTuple [VDict [(KStr ''a'', VObj 7)], VNone,
             VDict [(KStr ''a'', VBool False)], VDict [(KStr ''a'', VBool False)], VDict []]"

definition pool_wrapped :: dispatcher where
  \<comment> \<open>One single-agent environment behind a proxy, built by the dispatcher.\<close>
  "pool_wrapped =
     \<lparr>num_envs = 1, multiagent = False, has_worker = False,
      restart_failed_sub_environments = False, make_env_creates_actors = False,
      observation_space = VObj 0, action_space = VObj 1,
      actors = [ActorHandle 100],
      pending = [(2, ActorHandle 100)],
      calls = [(ActorHandle 100, CallObservationSpace), (ActorHandle 100, CallActionSpace),
               (ActorHandle 100, CallReset VNone VNone)],
      built = 1\<rparr>"


definition step_with_b :: pyval where
  \<comment> \<open>A step result of a multi-agent environment in which agent \<^verbatim>\<open>b\<close> appears.\<close>
  "step_with_b =
     VTuple [VDict [(KStr ''b'', VObj 9)], VDict [(KStr ''b'', VFloat 1 0)],
             VDict [(ALL_KEY, VBool False)], VDict [(ALL_KEY, VBool False)], VDict []]"

definition pool3_idle :: dispatcher where
  \<comment> \<open>\<open>pool3 False\<close> after the three resets are polled.\<close>
  "pool3_idle = (pool3 False)\<lparr>pending := []\<rparr>"

definition pool3_sent :: dispatcher where
  \<comment> \<open>\<open>pool3_idle\<close> after an action is sent to worker 0.\<close>
  "pool3_sent =
     pool3_idle\<lparr>pending := [(3, ActorHandle 0)],
       calls := calls pool3_idle @
         [(ActorHandle 0, CallStep (VDict [(KStr ''a'', VInt 1)]))]\<rparr>"

definition pool_rebuilt :: dispatcher where
  \<comment> \<open>What the constructor builds for two slots when the caller supplies one local
      environment.\<close>
  "pool_rebuilt =
     \<lparr>num_envs = 2, multiagent = False, has_worker = False,
      restart_failed_sub_environments = False, make_env_creates_actors = False,
      observation_space = VObj 0, action_space = VObj 1,
      actors = [ActorHandle 100, ActorHandle 101],
      pending = [(0, ActorHandle 100), (1, ActorHandle 101)],
      calls = [(ActorHandle 100, CallReset VNone VNone),
               (ActorHandle 101, CallReset VNone VNone)],
      built = 2\<rparr>"

definition pool_extended :: dispatcher where
  \<comment> \<open>What the constructor builds for three slots when the caller supplies one actor.\<close>
  "pool_extended =
     \<lparr>num_envs = 3, multiagent = False, has_worker = False,
      restart_failed_sub_environments = False, make_env_creates_actors = True,
      observation_space = VNone, action_space = VNone,
      actors = [ActorHandle 0, ActorHandle 100, ActorHandle 101],
      pending = [(0, ActorHandle 0), (1, ActorHandle 100), (2, ActorHandle 101)],
      calls = [(ActorHandle 0, CallReset VNone VNone),
               (ActorHandle 100, CallReset VNone VNone),
               (ActorHandle 101, CallReset VNone VNone)],
      built = 2\<rparr>"

section \<open>What the methods leave unchanged\<close>

lemma remote_frame [simp]:
  "num_envs (snd (remote a c s)) = num_envs s"
  "actors (snd (remote a c s)) = actors s"
  "pending (snd (remote a c s)) = pending s"
  "make_env_creates_actors (snd (remote a c s)) = make_env_creates_actors s"
  "multiagent (snd (remote a c s)) = multiagent s"
  "restart_failed_sub_environments (snd (remote a c s)) = restart_failed_sub_environments s"
  "has_worker (snd (remote a c s)) = has_worker s"
  "built (snd (remote a c s)) = built s"
  by (simp_all add: remote_def split: sub_env.splits sum.splits)

lemma try_restart_frame [simp]:
  "num_envs (snd (try_restart E i s)) = num_envs s"
  "pending (snd (try_restart E i s)) = pending s"
  "make_env_creates_actors (snd (try_restart E i s)) = make_env_creates_actors s"
  "multiagent (snd (try_restart E i s)) = multiagent s"
  "restart_failed_sub_environments (snd (try_restart E i s)) = restart_failed_sub_environments s"
  "has_worker (snd (try_restart E i s)) = has_worker s"
  by (simp_all add: try_restart_def Let_def case_prod_beta split: option.splits sum.splits)

lemma get_or_restart_frame [simp]:
  "num_envs (snd (get_or_restart E res i h s)) = num_envs s"
  "pending (snd (get_or_restart E res i h s)) = pending s"
  "make_env_creates_actors (snd (get_or_restart E res i h s)) = make_env_creates_actors s"
  "multiagent (snd (get_or_restart E res i h s)) = multiagent s"
  "restart_failed_sub_environments (snd (get_or_restart E res i h s)) =
     restart_failed_sub_environments s"
  "has_worker (snd (get_or_restart E res i h s)) = has_worker s"
  by (simp_all add: get_or_restart_def case_prod_beta split: outcome.splits list.splits sum.splits)

lemma poll_body_flags:
  "make_env_creates_actors (snd (poll_body E res h s b)) = make_env_creates_actors s"
  "multiagent (snd (poll_body E res h s b)) = multiagent s"
  "restart_failed_sub_environments (snd (poll_body E res h s b)) =
     restart_failed_sub_environments s"
  by (simp_all add: poll_body_def Let_def case_prod_beta split: option.splits sum.splits)

lemma poll_body_pending:
  "pending (snd (poll_body E res h s b)) =
     (case map_of (pending s) h of None \<Rightarrow> pending s | Some _ \<Rightarrow> AList.delete h (pending s))"
  by (simp add: poll_body_def Let_def case_prod_beta split: option.splits sum.splits)

lemma poll_loop_flags:
  "make_env_creates_actors (snd (poll_loop E res hs s b)) = make_env_creates_actors s \<and>
   multiagent (snd (poll_loop E res hs s b)) = multiagent s \<and>
   restart_failed_sub_environments (snd (poll_loop E res hs s b)) =
     restart_failed_sub_environments s"
  by (induction hs arbitrary: s b)
     (simp_all add: case_prod_beta poll_body_flags split: sum.splits)

lemma poll_loop_append:
  "poll_loop E res (xs @ ys) s b =
     (case poll_loop E res xs s b of
        (Inl e, s') \<Rightarrow> (Inl e, s')
      | (Inr b', s') \<Rightarrow> poll_loop E res ys s' b')"
  by (induction xs arbitrary: s b) (auto split: prod.splits sum.splits)

lemma poll_loop_pops:
  "poll_loop E res hs s b = (Inr b', s') \<Longrightarrow>
     pending s' = filter (\<lambda>p. fst p \<notin> set hs) (pending s)"
proof (induction hs arbitrary: s b)
  case Nil
  then show ?case by simp
next
  case (Cons h hs)
  obtain r s1 where step: "poll_body E res h s b = (r, s1)"
    by (cases "poll_body E res h s b")
  from Cons.prems step obtain b1 where r: "r = Inr b1"
    and rest: "poll_loop E res hs s1 b1 = (Inr b', s')"
    by (cases r) auto
  have "map_of (pending s) h \<noteq> None"
    using step r by (auto simp: poll_body_def split: option.splits)
  then have "pending s1 = AList.delete h (pending s)"
    using poll_body_pending [of E res h s b] step by (auto split: option.splits)
  then have "pending s1 = filter (\<lambda>p. fst p \<noteq> h) (pending s)"
    by (auto simp add: AList.delete_eq case_prod_beta intro: filter_cong)
  with Cons.IH [OF rest] show ?case
    by (auto intro: filter_cong)
qed


section \<open>Properties of the normalizer and of \<^verbatim>\<open>poll\<close>\<close>


text \<open>
  C2. With restarts disabled, when \<^verbatim>\<open>poll\<close> reaches an object reference \<open>h\<close> of its
  wait round (the references \<open>pre\<close> before it were resolved and normalized into \<open>b\<close>)
  and \<^verbatim>\<open>ray.get\<close> raises on it, \<^verbatim>\<open>poll\<close> raises that exception: it returns no
  batch, whatever \<open>b\<close> holds and whatever references \<open>post\<close> were ready too.
\<close>

theorem C2_fault_reraised:
  assumes "\<not> restart_failed_sub_environments s"
    and "wait_loop waits = Some (pre @ h # post)"
    and "poll_loop E res pre s empty_acc = (Inr b, s1)"
    and "map_of (pending s1) h = Some actor"
    and "list_index (actors s1) actor = Some env_id"
    and "res h = Raises cls args"
  shows "poll E waits res s =
           Some (Inl (WorkerFault cls args), s1\<lparr>pending := AList.delete h (pending s1)\<rparr>)"
proof -
  have "restart_failed_sub_environments s1 = restart_failed_sub_environments s"
    using poll_loop_flags [of E res pre s empty_acc] assms(3) by simp
  then have off: "\<not> restart_failed_sub_environments s1"
    using assms(1) by simp
  have body: "poll_body E res h s1 b =
      (Inl (WorkerFault cls args), s1\<lparr>pending := AList.delete h (pending s1)\<rparr>)"
    using off assms(4-6) by (simp add: poll_body_def get_or_restart_def Let_def)
  have "poll_loop E res (pre @ h # post) s empty_acc =
      (Inl (WorkerFault cls args), s1\<lparr>pending := AList.delete h (pending s1)\<rparr>)"
    using assms(3) body by (simp add: poll_loop_append)
  then show ?thesis
    using assms(2) by (simp add: poll_def)
qed

theorem C2_fault_reraised_witness:
  "poll E0 [[], [0, 1, 2]] res3 (pool3 False) =
     Some (Inl (WorkerFault ''RuntimeError'' [VStr ''boom'']),
           (pool3 False)\<lparr>pending := [(2, ActorHandle 2)]\<rparr>)"
  using C2_fault_reraised [of "pool3 False" "[[], [0, 1, 2]]" "[0]" 1 "[2]" E0 res3 _ _
      "ActorHandle 1" 1 "''RuntimeError''" "[VStr ''boom'']"]
  by (simp add: pool3_def res3_def boom_def reset_a_def poll_body_def get_or_restart_def
      normalize_ret_def decode_multi_def reset_defaults_def dict_keys_def empty_acc_def)

lemma normalize_ret_wrong_arity:
  assumes "py_iter ret = Some xs" and "length xs \<noteq> 5" and "length xs \<noteq> 2"
  shows "normalize_ret creates multi ret =
           Inl (if creates then
                  AssertionError
                    (case ret of
                       VTuple _ \<Rightarrow> arity_msg
                     | _ \<Rightarrow> if multi then single_msg_multi else single_msg)
                else UnpackValueError)"
proof (cases creates)
  case True
  then show ?thesis
    using assms
    by (cases ret)
       (simp_all add: normalize_ret_def decode_multi_def decode_single_def py_iter_def)
next
  case False
  have "(case xs of [a, b, c, d, e] \<Rightarrow> Inr (a, b, c, d, e) | _ \<Rightarrow> Inl UnpackValueError)
          = Inl UnpackValueError"
    using assms(2) by (auto split: list.splits)
  then show ?thesis
    using False assms(1) by (simp add: normalize_ret_def unpack5_def)
qed

text \<open>
  C5. When \<^verbatim>\<open>poll\<close> reaches an object reference whose task returned a sequence of
  a length other than 5 and 2, it raises: one of the AssertionErrors of lines 207--247
  when \<^verbatim>\<open>make_env\<close> creates the actors (the arity message for a tuple), the
  ValueError of the tuple assignment of line 261 when the workers are proxies. Neither is
  the fault of a worker, the same happens with restarts enabled and disabled, and the
  round neither restarts a worker nor builds one nor submits a task.
\<close>

theorem C5_format_violation:
  assumes "wait_loop waits = Some (pre @ h # post)"
    and "poll_loop E res pre s empty_acc = (Inr b, s1)"
    and "map_of (pending s1) h = Some actor"
    and "list_index (actors s1) actor = Some env_id"
    and "res h = Returns ret"
    and "py_iter ret = Some xs"
    and "length xs \<noteq> 5" and "length xs \<noteq> 2"
  shows "\<exists>e s'. poll E waits res s = Some (Inl e, s')
           \<and> e = (if make_env_creates_actors s then
                    AssertionError
                      (case ret of
                         VTuple _ \<Rightarrow> arity_msg
                       | _ \<Rightarrow> if multiagent s then single_msg_multi else single_msg)
                  else UnpackValueError)
           \<and> (\<forall>cls args. e \<noteq> WorkerFault cls args)
           \<and> actors s' = actors s1 \<and> built s' = built s1 \<and> calls s' = calls s1
           \<and> pending s' = AList.delete h (pending s1)"
proof -
  let ?e = "if make_env_creates_actors s then
              AssertionError
                (case ret of
                   VTuple _ \<Rightarrow> arity_msg
                 | _ \<Rightarrow> if multiagent s then single_msg_multi else single_msg)
            else UnpackValueError"
  have flags: "make_env_creates_actors s1 = make_env_creates_actors s"
    "multiagent s1 = multiagent s"
    using poll_loop_flags [of E res pre s empty_acc] assms(2) by simp_all
  have norm: "normalize_ret (make_env_creates_actors s1) (multiagent s1) ret = Inl ?e"
    using normalize_ret_wrong_arity [OF assms(6-8)] by (simp add: flags)
  have body: "poll_body E res h s1 b = (Inl ?e, s1\<lparr>pending := AList.delete h (pending s1)\<rparr>)"
    using assms(3-5) norm by (simp add: poll_body_def get_or_restart_def Let_def)
  have "poll_loop E res (pre @ h # post) s empty_acc =
      (Inl ?e, s1\<lparr>pending := AList.delete h (pending s1)\<rparr>)"
    using assms(2) body by (simp add: poll_loop_append)
  then have "poll E waits res s =
      Some (Inl ?e, s1\<lparr>pending := AList.delete h (pending s1)\<rparr>)"
    using assms(1) by (simp add: poll_def)
  then show ?thesis by simp
qed

theorem C5_format_violation_witness:
  "\<exists>e s'. poll E0 [[0, 1, 2]] res_short (pool3 True) = Some (Inl e, s')
     \<and> e = AssertionError arity_msg
     \<and> (\<forall>cls args. e \<noteq> WorkerFault cls args)
     \<and> actors s' = [ActorHandle 0, ActorHandle 1, ActorHandle 2] \<and> built s' = 0
     \<and> calls s' = calls (pool3 True)
     \<and> pending s' = [(2, ActorHandle 2)]"
  using C5_format_violation [of "[[0, 1, 2]]" "[0]" 1 "[2]" E0 res_short "pool3 True" _ _
      "ActorHandle 1" 1 "VTuple [VObj 7, VInt 1, VBool False, VDict []]"
      "[VObj 7, VInt 1, VBool False, VDict []]"]
  by (simp add: pool3_def res_short_def reset_a_def poll_body_def get_or_restart_def
      normalize_ret_def decode_multi_def reset_defaults_def dict_keys_def empty_acc_def
      py_iter_def)

text \<open>
  C1. According to the specification, with restarts enabled a task that fails puts the
  record \<open>(fault, {}, {"__all__": True}, {"__all__": False}, {})\<close> under its slot. Where
  \<^verbatim>\<open>make_env\<close> creates single-agent actors the tuple of lines 181--187 is then
  decoded as a single-agent step result (lines 221--228) and every field is wrapped once
  more: the reward is not empty and the two \<^verbatim>\<open>"__all__"\<close> flags are dictionaries
  instead of booleans. The pool is the one the constructor builds from two supplied
  actors; worker 0 fails and worker 1 returns from its reset.
\<close>

theorem C1_single_agent_fault_record:
  "init E0 2 False [ActorHandle 0, ActorHandle 1] False True = Inr pool_single
   \<and> map_option fst (poll E0 [[0, 1]] res_single pool_single) =
     Some (Inr ([(0, VDict [(DUMMY_AGENT_ID, VExc ''RuntimeError'' [VStr ''boom''])]),
                 (1, VDict [(DUMMY_AGENT_ID, VObj 7)])],
                [(0, VDict [(DUMMY_AGENT_ID, VDict [])]),
                 (1, VDict [(DUMMY_AGENT_ID, VInt 0)])],
                [(0, VDict [(DUMMY_AGENT_ID, VDict [(ALL_KEY, VBool True)]),
                            (ALL_KEY, VDict [(ALL_KEY, VBool True)])]),
                 (1, VDict [(ALL_KEY, VBool False)])],
                [(0, VDict [(DUMMY_AGENT_ID, VDict [(ALL_KEY, VBool False)]),
                            (ALL_KEY, VDict [(ALL_KEY, VBool False)])]),
                 (1, VDict [(ALL_KEY, VBool False)])],
                [(0, VDict [(DUMMY_AGENT_ID, VDict [])]),
                 (1, VDict [(DUMMY_AGENT_ID, VObj 8)])],
                []))
   \<and> map_option (actors \<circ> snd) (poll E0 [[0, 1]] res_single pool_single) =
     Some [ActorHandle 100, ActorHandle 1]"
proof -
  have a: "init E0 2 False [ActorHandle 0, ActorHandle 1] False True = Inr pool_single"
    by (simp add: init_def E0_def is_actor_def extend_actors.simps remote_def pool_single_def)
  have b: "poll E0 [[0, 1]] res_single pool_single =
     Some (Inr ([(0, VDict [(DUMMY_AGENT_ID, VExc ''RuntimeError'' [VStr ''boom''])]),
                 (1, VDict [(DUMMY_AGENT_ID, VObj 7)])],
                [(0, VDict [(DUMMY_AGENT_ID, VDict [])]),
                 (1, VDict [(DUMMY_AGENT_ID, VInt 0)])],
                [(0, VDict [(DUMMY_AGENT_ID, VDict [(ALL_KEY, VBool True)]),
                            (ALL_KEY, VDict [(ALL_KEY, VBool True)])]),
                 (1, VDict [(ALL_KEY, VBool False)])],
                [(0, VDict [(DUMMY_AGENT_ID, VDict [(ALL_KEY, VBool False)]),
                            (ALL_KEY, VDict [(ALL_KEY, VBool False)])]),
                 (1, VDict [(ALL_KEY, VBool False)])],
                [(0, VDict [(DUMMY_AGENT_ID, VDict [])]),
                 (1, VDict [(DUMMY_AGENT_ID, VObj 8)])],
                []),
           pool_single\<lparr>actors := [ActorHandle 100, ActorHandle 1], pending := [],
             calls := calls pool_single @
               [(ActorHandle 0, CallClose), (ActorHandle 0, CallTerminate)],
             built := 1\<rparr>)"
    by (simp add: poll_def pool_single_def res_single_def boom_def poll_body_def
        get_or_restart_def try_restart_def make_sub_env_def remote_def E0_def
        py_nth_def py_pos_def py_set_def fault_record_def
        normalize_ret_def decode_single_def reset_defaults_def dict_keys_def empty_acc_def)
  show ?thesis
    using a b by simp
qed

lemma poll_fault_without_args:
  "map_option fst (poll E0 [[1]] (\<lambda>h. Raises ''ActorDiedError'' []) (pool3 True)) =
     Some (Inl IndexError)
   \<and> map_option (actors \<circ> snd) (poll E0 [[1]] (\<lambda>h. Raises ''ActorDiedError'' []) (pool3 True))
       = Some (actors (pool3 True))"
  by (simp add: poll_def pool3_def poll_body_def get_or_restart_def empty_acc_def)

lemma poll_body_fault_restarted:
  assumes "restart_failed_sub_environments s"
    and "multiagent s \<or> \<not> make_env_creates_actors s"
    and "map_of (pending s) h = Some actor"
    and "list_index (actors s) actor = Some env_id"
    and "res h = Raises cls (x # args)"
    and "try_restart E (int env_id) (s\<lparr>pending := AList.delete h (pending s)\<rparr>) = (Inr (), s2)"
  shows "poll_body E res h s b =
           (Inr \<lparr>obs = AList.update env_id (VExc cls (x # args)) (obs b),
                 rewards = AList.update env_id (VDict []) (rewards b),
                 terminateds = AList.update env_id (VDict [(ALL_KEY, VBool True)]) (terminateds b),
                 truncateds = AList.update env_id (VDict [(ALL_KEY, VBool False)]) (truncateds b),
                 infos = AList.update env_id (VDict []) (infos b),
                 env_ids = insert env_id (env_ids b)\<rparr>, s2)"
proof -
  let ?s1 = "s\<lparr>pending := AList.delete h (pending s)\<rparr>"
  have s2: "s2 = snd (try_restart E (int env_id) ?s1)"
    using assms(6) by simp
  have g: "get_or_restart E res env_id h ?s1 = (Inr (fault_record cls (x # args)), s2)"
    using assms(1,5,6) by (simp add: get_or_restart_def)
  have n: "normalize_ret (make_env_creates_actors s2) (multiagent s2) (fault_record cls (x # args))
      = Inr (VExc cls (x # args), VDict [], VDict [(ALL_KEY, VBool True)],
             VDict [(ALL_KEY, VBool False)], VDict [])"
    using assms(2)
    by (auto simp: s2 normalize_ret_def decode_multi_def reset_defaults_def fault_record_def
        unpack5_def py_iter_def)
  show ?thesis
    using assms(3,4) g n by (simp add: poll_body_def Let_def)
qed

lemma fault_record_elsewhere:
  "normalize_ret True True (fault_record cls args) =
     Inr (VExc cls args, VDict [], VDict [(ALL_KEY, VBool True)],
          VDict [(ALL_KEY, VBool False)], VDict [])"
  "normalize_ret False multi (fault_record cls args) =
     Inr (VExc cls args, VDict [], VDict [(ALL_KEY, VBool True)],
          VDict [(ALL_KEY, VBool False)], VDict [])"
  by (simp_all add: normalize_ret_def decode_multi_def reset_defaults_def fault_record_def
      unpack5_def py_iter_def)

text \<open>
  C7. According to the specification, after \<^verbatim>\<open>try_restart(env_id)\<close> the task handle
  the replaced worker had is out of the Pending Table and its late result is ignored. In the pool the
  constructor builds around one proxy, reference 2 is the pending \<^verbatim>\<open>reset\<close> of actor
  100. After \<^verbatim>\<open>try_restart(0)\<close> the slot holds actor 101 and reference 2 still
  maps to actor 100; when it resolves, \<^verbatim>\<open>poll\<close> pops it and
  \<^verbatim>\<open>self.actors.index(actor)\<close> raises.
\<close>

theorem C7_handle_stays_counterexample:
  "init E0 1 False [] False False = Inr pool_wrapped
   \<and> fst (try_restart E0 0 pool_wrapped) = Inr ()
   \<and> actors (snd (try_restart E0 0 pool_wrapped)) = [ActorHandle 101]
   \<and> map_of (pending (snd (try_restart E0 0 pool_wrapped))) 2 = Some (ActorHandle 100)
   \<and> map_option fst
        (poll E0 [[2]] (\<lambda>h. Returns reset_a) (snd (try_restart E0 0 pool_wrapped))) =
      Some (Inl NotInList)"
proof -
  have a: "init E0 1 False [] False False = Inr pool_wrapped"
    by (simp add: init_def E0_def is_actor_def remote_def make_sub_env_def query_spaces_def
        pool_wrapped_def)
  have b: "try_restart E0 0 pool_wrapped =
      (Inr (), pool_wrapped\<lparr>actors := [ActorHandle 101],
         calls := calls pool_wrapped @ [(ActorHandle 100, CallTerminate)],
         built := 2\<rparr>)"
    by (simp add: try_restart_def pool_wrapped_def make_sub_env_def remote_def E0_def
        py_nth_def py_pos_def py_set_def)
  have c: "map_option fst
        (poll E0 [[2]] (\<lambda>h. Returns reset_a)
          (pool_wrapped\<lparr>actors := [ActorHandle 101],
             calls := calls pool_wrapped @ [(ActorHandle 100, CallTerminate)],
             built := 2\<rparr>)) = Some (Inl NotInList)"
    by (simp add: poll_def pool_wrapped_def poll_body_def empty_acc_def)
  show ?thesis
    using a c by (simp add: b) (simp add: pool_wrapped_def)
qed

text \<open>
  C7, amended. \<^verbatim>\<open>try_restart\<close> leaves the Pending Table as it is. Only \<^verbatim>\<open>poll\<close>
  removes entries: after a \<^verbatim>\<open>poll\<close> that returns, no object reference of its wait
  round is in the table, the one whose fault made \<^verbatim>\<open>poll\<close> restart a worker
  included, and the other entries are untouched.
\<close>

theorem C7_pending_after_restart:
  assumes "poll E waits res s = Some (Inr batch, s')"
    and "wait_loop waits = Some ready"
  shows "pending (snd (try_restart E env_id s)) = pending s
         \<and> pending s' = filter (\<lambda>p. fst p \<notin> set ready) (pending s)
         \<and> (\<forall>h \<in> set ready. map_of (pending s') h = None)"
proof -
  obtain b where loop: "poll_loop E res ready s empty_acc = (Inr b, s')"
    using assms by (auto simp: poll_def split: prod.splits sum.splits)
  have p: "pending s' = filter (\<lambda>p. fst p \<notin> set ready) (pending s)"
    by (rule poll_loop_pops [OF loop])
  have "\<forall>h \<in> set ready. h \<notin> fst ` set (pending s')"
    by (auto simp: p)
  then have "\<forall>h \<in> set ready. map_of (pending s') h = None"
    by (simp add: map_of_eq_None_iff)
  with p show ?thesis by simp
qed

theorem C7_pending_after_restart_witness:
  "pending (snd (try_restart E0 0 (pool3 True))) = pending (pool3 True)
   \<and> map_option (pending \<circ> snd) (poll E0 [[0, 1]] res3 (pool3 True)) =
       Some [(2, ActorHandle 2)]
   \<and> map_option (actors \<circ> snd) (poll E0 [[0, 1]] res3 (pool3 True)) =
       Some [ActorHandle 0, ActorHandle 100, ActorHandle 2]"
proof -
  have run: "poll E0 [[0, 1]] res3 (pool3 True) =
      Some (Inr ([(0, VDict [(KStr ''a'', VObj 7)]), (1, VExc ''RuntimeError'' [VStr ''boom''])],
                 [(0, VDict [(KStr ''a'', VInt 0)]), (1, VDict [])],
                 [(0, VDict [(ALL_KEY, VBool False)]), (1, VDict [(ALL_KEY, VBool True)])],
                 [(0, VDict [(ALL_KEY, VBool False)]), (1, VDict [(ALL_KEY, VBool False)])],
                 [(0, VDict []), (1, VDict [])], []),
            (pool3 True)\<lparr>actors := [ActorHandle 0, ActorHandle 100, ActorHandle 2],
               pending := [(2, ActorHandle 2)],
               calls := calls (pool3 True) @
                 [(ActorHandle 1, CallClose), (ActorHandle 1, CallTerminate)],
               built := 1\<rparr>)"
    by (simp add: poll_def pool3_def res3_def boom_def reset_a_def poll_body_def
        get_or_restart_def try_restart_def make_sub_env_def remote_def E0_def
        py_nth_def py_pos_def py_set_def fault_record_def
        normalize_ret_def decode_multi_def reset_defaults_def dict_keys_def empty_acc_def)
  have w: "wait_loop [[0, 1]] = Some [0, 1]"
    by simp
  show ?thesis
    using C7_pending_after_restart [OF run w, of 0] unfolding run by (simp add: pool3_def)
qed

text \<open>
  C8. According to the specification, every record \<^verbatim>\<open>poll\<close> returns has
  \<^verbatim>\<open>"__all__"\<close> in both flag mappings, step results of multi-agent workers included. The three resets of a pool of
  multi-agent actors are polled, an action is sent to worker 0, and its \<^verbatim>\<open>step\<close>
  returns flags that name agent \<^verbatim>\<open>a\<close> only: \<^verbatim>\<open>poll\<close> returns them as they are.
\<close>

theorem C8_multi_agent_step_counterexample:
  "map_option snd (poll E0 [[0, 1, 2]] (\<lambda>h. Returns reset_a) (pool3 False)) = Some pool3_idle
   \<and> send_actions [(0, VDict [(KStr ''a'', VInt 1)])] pool3_idle = (Inr (), pool3_sent)
   \<and> map_option fst (poll E0 [[3]] (\<lambda>h. Returns step_without_all) pool3_sent) =
       Some (Inr ([(0, VDict [(KStr ''a'', VObj 7)])],
                  [(0, VDict [(KStr ''a'', VFloat 1 0)])],
                  [(0, VDict [(KStr ''a'', VBool False)])],
                  [(0, VDict [(KStr ''a'', VBool False)])],
                  [(0, VDict [])], []))
   \<and> \<not> has_key ALL_KEY (VDict [(KStr ''a'', VBool False)])"
proof -
  have a: "map_option snd (poll E0 [[0, 1, 2]] (\<lambda>h. Returns reset_a) (pool3 False)) =
      Some pool3_idle"
    by (simp add: poll_def pool3_def pool3_idle_def reset_a_def poll_body_def
        get_or_restart_def normalize_ret_def decode_multi_def reset_defaults_def
        dict_keys_def empty_acc_def)
  have b: "send_actions [(0, VDict [(KStr ''a'', VInt 1)])] pool3_idle = (Inr (), pool3_sent)"
    by (simp add: pool3_def pool3_idle_def pool3_sent_def py_nth_def py_pos_def remote_def)
  have c: "map_option fst (poll E0 [[3]] (\<lambda>h. Returns step_without_all) pool3_sent) =
       Some (Inr ([(0, VDict [(KStr ''a'', VObj 7)])],
                  [(0, VDict [(KStr ''a'', VFloat 1 0)])],
                  [(0, VDict [(KStr ''a'', VBool False)])],
                  [(0, VDict [(KStr ''a'', VBool False)])],
                  [(0, VDict [])], []))"
    by (simp add: poll_def pool3_def pool3_idle_def pool3_sent_def step_without_all_def
        poll_body_def get_or_restart_def normalize_ret_def decode_multi_def
        reset_defaults_def empty_acc_def)
  have d: "\<not> has_key ALL_KEY (VDict [(KStr ''a'', VBool False)])"
    by (simp add: has_key_def ALL_KEY_def)
  from a b c d show ?thesis by blast
qed

lemma has_key_update: "has_key k (VDict (AList.update k v al))"
  by (simp add: has_key_def dom_update)

text \<open>
  C8, amended. \<^verbatim>\<open>"__all__"\<close> is a key of both flag mappings of every record
  \<^verbatim>\<open>poll\<close> returns for a single-agent actor (step, reset and the record of a fault),
  for the reset of a multi-agent actor, for the record of a fault in every mode, and for
  what the single-agent proxy returns from \<^verbatim>\<open>reset\<close> and \<^verbatim>\<open>step\<close> and the
  multi-agent proxy from \<^verbatim>\<open>reset\<close>. The five values of a multi-agent step are handed
  on as the environment returned them by the multi-agent proxy and by the tuple
  assignment of line 261, and by lines 199--200 when the reward is not \<^verbatim>\<open>None\<close>:
  then \<^verbatim>\<open>"__all__"\<close> is in the returned flags exactly when the environment put it
  there. When a multi-agent actor made by \<^verbatim>\<open>make_env\<close> returns a step whose reward
  is \<^verbatim>\<open>None\<close>, lines 252--255 take it for a reset: the reward becomes 0 for every key
  of the observation and both flags become \<^verbatim>\<open>{"__all__": False}\<close>, or
  \<^verbatim>\<open>ob.keys()\<close> raises when the observation is no dictionary.
\<close>

theorem C8_all_key:
  "(normalize_ret True False ret = Inr r \<longrightarrow> has_all r)
   \<and> (normalize_ret True True (VTuple [ob, info]) = Inr r \<longrightarrow> has_all r)
   \<and> (\<exists>r'. normalize_ret creates multi (fault_record cls args) = Inr r' \<and> has_all r')
   \<and> (single_reset v = Inr ret' \<longrightarrow> (\<exists>r'. normalize_ret False multi ret' = Inr r' \<and> has_all r'))
   \<and> (single_step v = Inr ret' \<longrightarrow> (\<exists>r'. normalize_ret False multi ret' = Inr r' \<and> has_all r'))
   \<and> (fst (multi_reset v ids) = Inr ret' \<longrightarrow>
        (\<exists>r'. normalize_ret False multi ret' = Inr r' \<and> has_all r'))
   \<and> multi_step v ids = (Inr v, ids)
   \<and> (length xs = 5 \<longrightarrow>
        normalize_ret False multi (VTuple xs) = Inr (xs ! 0, xs ! 1, xs ! 2, xs ! 3, xs ! 4))
   \<and> (length xs = 5 \<longrightarrow> xs ! 1 \<noteq> VNone \<longrightarrow>
        normalize_ret True True (VTuple xs) = Inr (xs ! 0, xs ! 1, xs ! 2, xs ! 3, xs ! 4)
        \<and> (has_all (xs ! 0, xs ! 1, xs ! 2, xs ! 3, xs ! 4)
             = (has_key ALL_KEY (xs ! 2) \<and> has_key ALL_KEY (xs ! 3))))
   \<and> (length xs = 5 \<longrightarrow> xs ! 1 = VNone \<longrightarrow>
        normalize_ret True True (VTuple xs) =
          (case dict_keys (xs ! 0) of
             None \<Rightarrow> Inl AttributeError
           | Some ks \<Rightarrow>
               Inr (xs ! 0, VDict (map (\<lambda>agent_id. (agent_id, VInt 0)) ks),
                    VDict [(ALL_KEY, VBool False)], VDict [(ALL_KEY, VBool False)], xs ! 4)))"
proof -
  have all_self: "has_key ALL_KEY (VDict [(ALL_KEY, x)])" for x
    by (simp add: has_key_def)
  have all_snd: "has_key ALL_KEY (VDict [(DUMMY_AGENT_ID, x), (ALL_KEY, y)])" for x y
    by (simp add: has_key_def)
  have c1: "normalize_ret True False ret = Inr r \<longrightarrow> has_all r"
    by (auto simp: normalize_ret_def decode_single_def reset_defaults_def has_all_def
        dict_keys_def all_self all_snd split: pyval.splits if_splits)
  have c2: "normalize_ret True True (VTuple [ob, info]) = Inr r \<longrightarrow> has_all r"
    by (auto simp: normalize_ret_def decode_multi_def reset_defaults_def has_all_def
        all_self split: option.splits)
  have c3: "\<exists>r'. normalize_ret creates multi (fault_record cls args) = Inr r' \<and> has_all r'"
    by (simp add: normalize_ret_def decode_multi_def decode_single_def reset_defaults_def
        fault_record_def unpack5_def py_iter_def has_all_def all_self all_snd)
  have c4: "single_reset v = Inr ret' \<longrightarrow>
      (\<exists>r'. normalize_ret False multi ret' = Inr r' \<and> has_all r')"
    by (auto simp: single_reset_def normalize_ret_def unpack5_def py_iter_def has_all_def
        all_self split: sum.splits)
  have c5: "single_step v = Inr ret' \<longrightarrow>
      (\<exists>r'. normalize_ret False multi ret' = Inr r' \<and> has_all r')"
    by (auto simp: single_step_def normalize_ret_def unpack5_def py_iter_def has_all_def
        has_key_update all_self all_snd split: option.splits list.splits)
  have c6: "fst (multi_reset v ids) = Inr ret' \<longrightarrow>
      (\<exists>r'. normalize_ret False multi ret' = Inr r' \<and> has_all r')"
    by (auto simp: multi_reset_def normalize_ret_def unpack5_def py_iter_def has_all_def
        all_self split: sum.splits option.splits prod.splits)
  have c7: "multi_step v ids = (Inr v, ids)"
    by (simp add: multi_step_def)
  have five: "\<exists>a b c d e. xs = [a, b, c, d, e]" if "length xs = 5"
    using that by (auto simp: length_Suc_conv eval_nat_numeral)
  have c8: "length xs = 5 \<longrightarrow>
        normalize_ret False multi (VTuple xs) = Inr (xs ! 0, xs ! 1, xs ! 2, xs ! 3, xs ! 4)"
  proof
    assume "length xs = 5"
    from five [OF this] obtain a b c d e where xs: "xs = [a, b, c, d, e]" by blast
    show "normalize_ret False multi (VTuple xs) = Inr (xs ! 0, xs ! 1, xs ! 2, xs ! 3, xs ! 4)"
      by (simp add: xs normalize_ret_def unpack5_def py_iter_def)
  qed
  have c9: "length xs = 5 \<longrightarrow> xs ! 1 \<noteq> VNone \<longrightarrow>
        normalize_ret True True (VTuple xs) = Inr (xs ! 0, xs ! 1, xs ! 2, xs ! 3, xs ! 4)
        \<and> (has_all (xs ! 0, xs ! 1, xs ! 2, xs ! 3, xs ! 4)
             = (has_key ALL_KEY (xs ! 2) \<and> has_key ALL_KEY (xs ! 3)))"
    by (simp add: normalize_ret_def decode_multi_def reset_defaults_def has_all_def)
  have c10: "length xs = 5 \<longrightarrow> xs ! 1 = VNone \<longrightarrow>
        normalize_ret True True (VTuple xs) =
          (case dict_keys (xs ! 0) of
             None \<Rightarrow> Inl AttributeError
           | Some ks \<Rightarrow>
               Inr (xs ! 0, VDict (map (\<lambda>agent_id. (agent_id, VInt 0)) ks),
                    VDict [(ALL_KEY, VBool False)], VDict [(ALL_KEY, VBool False)], xs ! 4))"
    by (simp add: normalize_ret_def decode_multi_def reset_defaults_def)
  from c1 c2 c3 c4 c5 c6 c7 c8 c9 c10 show ?thesis by blast
qed

theorem C8_all_key_witness:
  "normalize_ret True False (VTuple [VObj 7, VObj 8]) =
     Inr (VDict [(DUMMY_AGENT_ID, VObj 7)], VDict [(DUMMY_AGENT_ID, VInt 0)],
          VDict [(ALL_KEY, VBool False)], VDict [(ALL_KEY, VBool False)],
          VDict [(DUMMY_AGENT_ID, VObj 8)])
   \<and> has_all (VDict [(DUMMY_AGENT_ID, VObj 7)], VDict [(DUMMY_AGENT_ID, VInt 0)],
          VDict [(ALL_KEY, VBool False)], VDict [(ALL_KEY, VBool False)],
          VDict [(DUMMY_AGENT_ID, VObj 8)])
   \<and> normalize_ret True True reset_a =
     Inr (VDict [(KStr ''a'', VObj 7)], VDict [(KStr ''a'', VInt 0)],
          VDict [(ALL_KEY, VBool False)], VDict [(ALL_KEY, VBool False)], VDict [])
   \<and> has_all (VDict [(KStr ''a'', VObj 7)], VDict [(KStr ''a'', VInt 0)],
          VDict [(ALL_KEY, VBool False)], VDict [(ALL_KEY, VBool False)], VDict [])
   \<and> (\<exists>ret'. single_reset (VTuple [VObj 7, VObj 8]) = Inr ret'
        \<and> (\<exists>r'. normalize_ret False False ret' = Inr r' \<and> has_all r'))
   \<and> (\<exists>ret'. single_step (VTuple [VObj 7, VFloat 1 0, VBool True, VBool False, VDict []])
          = Inr ret'
        \<and> (\<exists>r'. normalize_ret False False ret' = Inr r' \<and> has_all r'))
   \<and> (\<exists>ret'. fst (multi_reset reset_a {}) = Inr ret'
        \<and> (\<exists>r'. normalize_ret False True ret' = Inr r' \<and> has_all r'))
   \<and> normalize_ret False True step_without_all =
     Inr (VDict [(KStr ''a'', VObj 7)], VDict [(KStr ''a'', VFloat 1 0)],
          VDict [(KStr ''a'', VBool False)], VDict [(KStr ''a'', VBool False)], VDict [])
   \<and> normalize_ret True True step_without_all =
     Inr (VDict [(KStr ''a'', VObj 7)], VDict [(KStr ''a'', VFloat 1 0)],
          VDict [(KStr ''a'', VBool False)], VDict [(KStr ''a'', VBool False)], VDict [])
   \<and> \<not> has_all (VDict [(KStr ''a'', VObj 7)], VDict [(KStr ''a'', VFloat 1 0)],
          VDict [(KStr ''a'', VBool False)], VDict [(KStr ''a'', VBool False)], VDict [])
   \<and> normalize_ret True True step_reward_none =
     Inr (VDict [(KStr ''a'', VObj 7)], VDict [(KStr ''a'', VInt 0)],
          VDict [(ALL_KEY, VBool False)], VDict [(ALL_KEY, VBool False)], VDict [])"
proof -
  have n1: "normalize_ret True False (VTuple [VObj 7, VObj 8]) =
     Inr (VDict [(DUMMY_AGENT_ID, VObj 7)], VDict [(DUMMY_AGENT_ID, VInt 0)],
          VDict [(ALL_KEY, VBool False)], VDict [(ALL_KEY, VBool False)],
          VDict [(DUMMY_AGENT_ID, VObj 8)])"
    by (simp add: normalize_ret_def decode_single_def reset_defaults_def dict_keys_def)
  have n2: "normalize_ret True True reset_a =
     Inr (VDict [(KStr ''a'', VObj 7)], VDict [(KStr ''a'', VInt 0)],
          VDict [(ALL_KEY, VBool False)], VDict [(ALL_KEY, VBool False)], VDict [])"
    by (simp add: normalize_ret_def decode_multi_def reset_defaults_def dict_keys_def
        reset_a_def)
  have n3: "single_reset (VTuple [VObj 7, VObj 8]) =
      Inr (VTuple [VDict [(DUMMY_AGENT_ID, VObj 7)], VDict [(DUMMY_AGENT_ID, VFloat 0 0)],
                   VDict [(ALL_KEY, VBool False)], VDict [(ALL_KEY, VBool False)],
                   VDict [(DUMMY_AGENT_ID, VObj 8)]])"
    by (simp add: single_reset_def py_getitem_def py_nth_def py_pos_def)
  have n4: "single_step (VTuple [VObj 7, VFloat 1 0, VBool True, VBool False, VDict []]) =
      Inr (VTuple [VDict [(DUMMY_AGENT_ID, VObj 7)], VDict [(DUMMY_AGENT_ID, VFloat 1 0)],
                   VDict [(DUMMY_AGENT_ID, VBool True), (ALL_KEY, VBool True)],
                   VDict [(DUMMY_AGENT_ID, VBool False), (ALL_KEY, VBool False)],
                   VDict [(DUMMY_AGENT_ID, VDict [])]])"
    by (simp add: single_step_def py_iter_def DUMMY_AGENT_ID_def ALL_KEY_def)
  have n5: "fst (multi_reset reset_a {}) =
      Inr (VTuple [VDict [(KStr ''a'', VObj 7)], VDict [(KStr ''a'', VFloat 0 0)],
                   VDict [(ALL_KEY, VBool False)], VDict [(ALL_KEY, VBool False)], VDict []])"
    by (simp add: multi_reset_def unpack2_def py_iter_def dict_keys_def reset_a_def)
  note i1 = C8_all_key [where ret = "VTuple [VObj 7, VObj 8]"
      and r = "(VDict [(DUMMY_AGENT_ID, VObj 7)], VDict [(DUMMY_AGENT_ID, VInt 0)],
          VDict [(ALL_KEY, VBool False)], VDict [(ALL_KEY, VBool False)],
          VDict [(DUMMY_AGENT_ID, VObj 8)])"
      and v = "VTuple [VObj 7, VObj 8]" and multi = False
      and ret' = "VTuple [VDict [(DUMMY_AGENT_ID, VObj 7)], VDict [(DUMMY_AGENT_ID, VFloat 0 0)],
                   VDict [(ALL_KEY, VBool False)], VDict [(ALL_KEY, VBool False)],
                   VDict [(DUMMY_AGENT_ID, VObj 8)]]"]
  note i2 = C8_all_key [where ob = "VDict [(KStr ''a'', VObj 7)]" and info = "VDict []"
      and r = "(VDict [(KStr ''a'', VObj 7)], VDict [(KStr ''a'', VInt 0)],
          VDict [(ALL_KEY, VBool False)], VDict [(ALL_KEY, VBool False)], VDict [])"
      and v = "VTuple [VObj 7, VFloat 1 0, VBool True, VBool False, VDict []]"
      and multi = False
      and ret' = "VTuple [VDict [(DUMMY_AGENT_ID, VObj 7)], VDict [(DUMMY_AGENT_ID, VFloat 1 0)],
                   VDict [(DUMMY_AGENT_ID, VBool True), (ALL_KEY, VBool True)],
                   VDict [(DUMMY_AGENT_ID, VBool False), (ALL_KEY, VBool False)],
                   VDict [(DUMMY_AGENT_ID, VDict [])]]"]
  note i3 = C8_all_key [where v = reset_a and ids = "{}" and multi = True
      and ret' = "VTuple [VDict [(KStr ''a'', VObj 7)], VDict [(KStr ''a'', VFloat 0 0)],
                   VDict [(ALL_KEY, VBool False)], VDict [(ALL_KEY, VBool False)], VDict []]"
      and xs = "[VDict [(KStr ''a'', VObj 7)], VDict [(KStr ''a'', VFloat 1 0)],
             VDict [(KStr ''a'', VBool False)], VDict [(KStr ''a'', VBool False)], VDict []]"]
  note i4 = C8_all_key [where
      xs = "[VDict [(KStr ''a'', VObj 7)], VNone,
             VDict [(KStr ''a'', VBool False)], VDict [(KStr ''a'', VBool False)], VDict []]"]
  have w1: "has_all (VDict [(DUMMY_AGENT_ID, VObj 7)], VDict [(DUMMY_AGENT_ID, VInt 0)],
          VDict [(ALL_KEY, VBool False)], VDict [(ALL_KEY, VBool False)],
          VDict [(DUMMY_AGENT_ID, VObj 8)])"
    using i1 n1 by blast
  have w2: "has_all (VDict [(KStr ''a'', VObj 7)], VDict [(KStr ''a'', VInt 0)],
          VDict [(ALL_KEY, VBool False)], VDict [(ALL_KEY, VBool False)], VDict [])"
    using i2 n2 by (simp add: reset_a_def)
  have w3: "\<exists>ret'. single_reset (VTuple [VObj 7, VObj 8]) = Inr ret'
        \<and> (\<exists>r'. normalize_ret False False ret' = Inr r' \<and> has_all r')"
    using i1 n3 by blast
  have w4: "\<exists>ret'. single_step (VTuple [VObj 7, VFloat 1 0, VBool True, VBool False, VDict []])
          = Inr ret'
        \<and> (\<exists>r'. normalize_ret False False ret' = Inr r' \<and> has_all r')"
    using i2 n4 by blast
  have w5: "\<exists>ret'. fst (multi_reset reset_a {}) = Inr ret'
        \<and> (\<exists>r'. normalize_ret False True ret' = Inr r' \<and> has_all r')"
    using i3 n5 by blast
  have w6: "normalize_ret False True step_without_all =
     Inr (VDict [(KStr ''a'', VObj 7)], VDict [(KStr ''a'', VFloat 1 0)],
          VDict [(KStr ''a'', VBool False)], VDict [(KStr ''a'', VBool False)], VDict [])"
    using i3 by (simp add: step_without_all_def)
  have w7: "normalize_ret True True step_without_all =
     Inr (VDict [(KStr ''a'', VObj 7)], VDict [(KStr ''a'', VFloat 1 0)],
          VDict [(KStr ''a'', VBool False)], VDict [(KStr ''a'', VBool False)], VDict [])
     \<and> \<not> has_all (VDict [(KStr ''a'', VObj 7)], VDict [(KStr ''a'', VFloat 1 0)],
          VDict [(KStr ''a'', VBool False)], VDict [(KStr ''a'', VBool False)], VDict [])"
    using i3 by (simp add: step_without_all_def has_key_def ALL_KEY_def)
  have w8: "normalize_ret True True step_reward_none =
     Inr (VDict [(KStr ''a'', VObj 7)], VDict [(KStr ''a'', VInt 0)],
          VDict [(ALL_KEY, VBool False)], VDict [(ALL_KEY, VBool False)], VDict [])"
    using i4 by (simp add: step_reward_none_def dict_keys_def)
  from n1 n2 w1 w2 w3 w4 w5 w6 w7 w8 show ?thesis by blast
qed


lemma multi_call_agent_ids:
  "snd (multi_call c ids) = ids \<union> (if reset_completes c then observation_keys c else {})"
proof (cases c)
  case (StepCall out)
  then show ?thesis
    by (cases out) (simp_all add: multi_call_def multi_step_def reset_completes_def)
next
  case (ResetCall out)
  show ?thesis
  proof (cases out)
    case (Raises cls args)
    then show ?thesis
      using ResetCall by (simp add: multi_call_def reset_completes_def)
  next
    case (Returns r)
    show ?thesis
    proof (cases "unpack2 r")
      case (Inl e)
      then show ?thesis
        using ResetCall Returns by (simp add: multi_call_def multi_reset_def reset_completes_def)
    next
      case (Inr p)
      obtain ob info where p: "p = (ob, info)" by (cases p)
      have it: "py_iter r = Some [ob, info]"
        using Inr p by (auto simp: unpack2_def split: option.splits list.splits)
      show ?thesis
      proof (cases ob)
        case (VDict kvs)
        then show ?thesis
          using ResetCall Returns Inr p it
          by (simp add: multi_call_def multi_reset_def reset_completes_def dict_keys_def
              observation_keys_def)
      qed (use ResetCall Returns Inr p in
          \<open>simp_all add: multi_call_def multi_reset_def reset_completes_def dict_keys_def\<close>)
    qed
  qed
qed

lemma multi_run_agent_ids: "multi_run cs ids = ids \<union> seen_in_resets cs"
proof (induction cs arbitrary: ids)
  case Nil
  show ?case by (simp add: seen_in_resets_def)
next
  case (Cons c cs)
  show ?case
    by (auto simp: Cons.IH multi_call_agent_ids seen_in_resets_def)
qed

text \<open>
  C10. Behind a multi-agent proxy, \<^verbatim>\<open>get_agent_ids\<close> of the dispatcher gives what the
  proxy in slot 0 answers, and after the calls \<open>cs\<close> the proxy has executed since it was
  built that is the set of the observation keys of its completed resets: empty before the
  first one, growing with further calls, unchanged by a \<^verbatim>\<open>step\<close> whatever the
  observation of the step holds. A reset completes whenever the wrapped environment
  returns a pair of an observation dictionary and an info.
\<close>

theorem C10_agent_ids:
  assumes "multiagent s" and "actors s = a # rest"
    and "q a = Inr (multi_get_agent_ids cs)"
  shows "get_agent_ids q s = Inr (seen_in_resets cs)
         \<and> multi_get_agent_ids [] = {}
         \<and> multi_get_agent_ids cs \<subseteq> multi_get_agent_ids (cs @ cs')
         \<and> multi_get_agent_ids (cs @ [StepCall out]) = multi_get_agent_ids cs
         \<and> reset_completes (ResetCall (Returns (VTuple [VDict kvs, info])))"
proof -
  have eq: "\<And>xs. multi_get_agent_ids xs = seen_in_resets xs"
    by (simp add: multi_get_agent_ids_def multi_run_agent_ids)
  have "get_agent_ids q s = Inr (seen_in_resets cs)"
    using assms by (simp add: get_agent_ids_def eq)
  moreover have "seen_in_resets cs \<subseteq> seen_in_resets (cs @ cs')"
    by (auto simp: seen_in_resets_def)
  moreover have "seen_in_resets (cs @ [StepCall out]) = seen_in_resets cs"
    by (simp add: seen_in_resets_def reset_completes_def)
  moreover have "reset_completes (ResetCall (Returns (VTuple [VDict kvs, info])))"
    by (simp add: reset_completes_def multi_call_def multi_reset_def unpack2_def py_iter_def
        dict_keys_def)
  ultimately show ?thesis
    by (simp add: eq) (simp add: seen_in_resets_def)
qed

theorem C10_agent_ids_witness:
  "get_agent_ids
     (\<lambda>a. Inr (multi_get_agent_ids
        [ResetCall (Returns reset_a), StepCall (Returns step_with_b), ResetCall boom]))
     (pool3 False) = Inr {KStr ''a''}
   \<and> multi_get_agent_ids [] = {}"
  using C10_agent_ids [of "pool3 False" "ActorHandle 0" "[ActorHandle 1, ActorHandle 2]"
      "\<lambda>a. Inr (multi_get_agent_ids
        [ResetCall (Returns reset_a), StepCall (Returns step_with_b), ResetCall boom])"
      "[ResetCall (Returns reset_a), StepCall (Returns step_with_b), ResetCall boom]"]
  by (simp add: pool3_def seen_in_resets_def reset_completes_def observation_keys_def
      multi_call_def multi_reset_def unpack2_def py_iter_def dict_keys_def reset_a_def
      step_with_b_def boom_def)

section \<open>One outstanding task per worker\<close>

lemma update_range: "snd ` set (AList.update k v al) \<subseteq> insert v (snd ` set al)"
  by (induction al) auto

lemma update_range_distinct:
  "distinct (map snd al) \<Longrightarrow> v \<notin> snd ` set al \<Longrightarrow> distinct (map snd (AList.update k v al))"
proof (induction al)
  case Nil
  show ?case by simp
next
  case (Cons p al)
  have "snd ` set (AList.update k v al) \<subseteq> insert v (snd ` set al)"
    by (rule update_range)
  with Cons show ?case by auto
qed

lemma delete_range_distinct:
  "distinct (map snd al) \<Longrightarrow> distinct (map snd (AList.delete k al))"
  by (simp add: AList.delete_eq distinct_map_filter)

lemma remote_pending:
  "remote a c s = (r, s') \<Longrightarrow> pending s' = pending s \<and> actors s' = actors s"
  by (metis remote_frame(2,3) snd_conv)

lemma reset_all_frame:
  "reset_all as s = Inr s' \<Longrightarrow> actors s' = actors s \<and> built s' = built s
     \<and> make_env_creates_actors s' = make_env_creates_actors s"
proof (induction as arbitrary: s)
  case Nil
  then show ?case by simp
next
  case (Cons a as)
  obtain r s1 where rem: "remote a (Inr (CallReset VNone VNone)) s = (r, s1)"
    by (cases "remote a (Inr (CallReset VNone VNone)) s")
  have s1: "s1 = snd (remote a (Inr (CallReset VNone VNone)) s)"
    using rem by simp
  from Cons.prems rem obtain h where r: "r = Inr h"
    and rest: "reset_all as (s1\<lparr>pending := AList.update h a (pending s1)\<rparr>) = Inr s'"
    by (cases r) auto
  show ?case
    using Cons.IH [OF rest] by (simp add: s1)
qed

lemma reset_all_distinct:
  "reset_all as s = Inr s' \<Longrightarrow> distinct as \<Longrightarrow> distinct (map snd (pending s))
     \<Longrightarrow> set as \<inter> snd ` set (pending s) = {} \<Longrightarrow> distinct (map snd (pending s'))"
proof (induction as arbitrary: s)
  case Nil
  then show ?case by simp
next
  case (Cons a as)
  obtain r s1 where rem: "remote a (Inr (CallReset VNone VNone)) s = (r, s1)"
    by (cases "remote a (Inr (CallReset VNone VNone)) s")
  have p1: "pending s1 = pending s"
    using remote_pending [OF rem] by simp
  from Cons.prems(1) rem obtain h where r: "r = Inr h"
    and rest: "reset_all as (s1\<lparr>pending := AList.update h a (pending s1)\<rparr>) = Inr s'"
    by (cases r) auto
  have fresh: "a \<notin> snd ` set (pending s)"
    using Cons.prems(4) by auto
  have d: "distinct (map snd (AList.update h a (pending s)))"
    by (rule update_range_distinct [OF Cons.prems(3) fresh])
  have sub: "snd ` set (AList.update h a (pending s)) \<subseteq> insert a (snd ` set (pending s))"
    by (rule update_range)
  have disj: "set as \<inter> snd ` set (AList.update h a (pending s)) = {}"
    using sub Cons.prems(2,4) by auto
  show ?case
    using Cons.IH [OF rest] Cons.prems(2) d disj by (simp add: p1)
qed

lemma extend_actors_pending:
  "extend_actors E s = Inr s' \<Longrightarrow> pending s' = pending s"
proof (induction E s rule: extend_actors.induct)
  case (1 E s)
  show ?case
  proof (cases "int (length (actors s)) < num_envs s")
    case False
    then show ?thesis using "1.prems" by (simp add: extend_actors.simps)
  next
    case True
    obtain r s1 where mk: "make_sub_env E (int (length (actors s))) s = (r, s1)"
      by (cases "make_sub_env E (int (length (actors s))) s")
    have s1: "s1 = snd (make_sub_env E (int (length (actors s))) s)"
      using mk by simp
    from "1.prems" True mk obtain a where r: "r = Inr a"
      and rest: "extend_actors E (s1\<lparr>actors := actors s1 @ [a]\<rparr>) = Inr s'"
      by (cases r) (auto simp: extend_actors.simps [of E s])
    have "pending s' = pending (s1\<lparr>actors := actors s1 @ [a]\<rparr>)"
      using "1.IH" [OF True mk [symmetric] r rest] .
    then show ?thesis by (simp add: s1)
  qed
qed

lemma build_actors_pending:
  "build_actors E is s = Inr (as, s') \<Longrightarrow> pending s' = pending s"
proof (induction "is" arbitrary: s as)
  case Nil
  then show ?case by simp
next
  case (Cons i "is")
  obtain r s1 where mk: "make_sub_env E (int i) s = (r, s1)"
    by (cases "make_sub_env E (int i) s")
  have s1: "s1 = snd (make_sub_env E (int i) s)"
    using mk by simp
  from Cons.prems mk obtain a as' where "build_actors E is s1 = Inr (as', s')"
    by (cases r; cases "build_actors E is s1") auto
  from Cons.IH [OF this] show ?case by (simp add: s1)
qed

lemma query_spaces_pending:
  "query_spaces E ex s = Inr s' \<Longrightarrow> pending s' = pending s \<and> actors s' = actors s"
  by (auto simp: query_spaces_def case_prod_beta split: list.splits sum.splits)

lemma init_pending_distinct:
  assumes "init E n multi existing_envs worker restart = Inr s" and "distinct (actors s)"
  shows "distinct (map snd (pending s))"
proof -
  obtain s0 where s0: "reset_all (actors s0) s0 = Inr s" and p0: "pending s0 = []"
    using assms(1)
    by (auto simp: init_def Let_def split: if_splits sum.splits prod.splits
        dest!: extend_actors_pending build_actors_pending query_spaces_pending)
  have "actors s = actors s0"
    using reset_all_frame [OF s0] by simp
  then show ?thesis
    using reset_all_distinct [OF s0] assms(2) p0 by simp
qed

lemma poll_loop_pending_distinct:
  "distinct (map snd (pending s)) \<Longrightarrow> distinct (map snd (pending (snd (poll_loop E res hs s b))))"
proof (induction hs arbitrary: s b)
  case Nil
  then show ?case by simp
next
  case (Cons h hs)
  have d: "distinct (map snd (pending (snd (poll_body E res h s b))))"
    using Cons.prems by (simp add: poll_body_pending delete_range_distinct split: option.splits)
  show ?case
    using Cons.IH [OF d] d by (simp add: case_prod_beta split: sum.splits)
qed

lemma targets_Cons:
  "targets s ((env_id, x) # rest) =
     (case py_nth (actors s) env_id of None \<Rightarrow> targets s rest | Some a \<Rightarrow> a # targets s rest)"
  by (simp add: targets_def List.map_filter_simps split: option.splits)

lemma send_actions_pending_distinct:
  "send_actions ad s = (r, s') \<Longrightarrow> distinct (map snd (pending s))
     \<Longrightarrow> distinct (targets s ad) \<Longrightarrow> \<forall>a \<in> set (targets s ad). a \<notin> snd ` set (pending s)
     \<Longrightarrow> distinct (map snd (pending s'))"
proof (induction ad arbitrary: s)
  case Nil
  then show ?case by simp
next
  case (Cons x ad)
  obtain env_id actions where x: "x = (env_id, actions)" by (cases x)
  show ?case
  proof (cases "py_nth (actors s) env_id")
    case None
    then show ?thesis using Cons.prems x by simp
  next
    case (Some actor)
    define c where "c = (if \<not> multiagent s \<and> make_env_creates_actors s
        then map_sum id CallStep (py_getkey actions DUMMY_AGENT_ID) else Inr (CallStep actions))"
    obtain r1 s1 where rem: "remote actor c s = (r1, s1)"
      by (cases "remote actor c s")
    have fr: "pending s1 = pending s" "actors s1 = actors s"
      using remote_pending [OF rem] by simp_all
    show ?thesis
    proof (cases r1)
      case (Inl e)
      then show ?thesis
        using Cons.prems(1,2) x Some rem fr by (simp add: c_def [symmetric])
    next
      case (Inr h)
      let ?s2 = "s1\<lparr>pending := AList.update h actor (pending s1)\<rparr>"
      have rest: "send_actions ad ?s2 = (r, s')"
        using Cons.prems(1) x Some rem Inr by (simp add: c_def [symmetric])
      have tg: "targets s (x # ad) = actor # targets s ad"
        using x Some by (simp add: targets_Cons)
      have tg2: "targets ?s2 ad = targets s ad"
        by (simp add: targets_def fr)
      have fresh: "actor \<notin> snd ` set (pending s)"
        using Cons.prems(4) tg by simp
      have d: "distinct (map snd (pending ?s2))"
        using update_range_distinct [OF Cons.prems(2) fresh] by (simp add: fr)
      have sub: "snd ` set (pending ?s2) \<subseteq> insert actor (snd ` set (pending s))"
        using update_range [of h actor "pending s"] by (simp add: fr)
      have fr2: "\<forall>a \<in> set (targets ?s2 ad). a \<notin> snd ` set (pending ?s2)"
        using Cons.prems(3,4) sub unfolding tg tg2 by auto
      have d2: "distinct (targets ?s2 ad)"
        using Cons.prems(3) unfolding tg tg2 by simp
      show ?thesis
        by (rule Cons.IH [OF rest d d2 fr2])
    qed
  qed
qed

lemma try_reset_pending_distinct:
  assumes "try_reset env_id seed options s = (r, s')" and "distinct (map snd (pending s))"
    and "reset_allowed s env_id"
  shows "distinct (map snd (pending s'))"
proof (cases "py_nth (actors s) env_id")
  case None
  then show ?thesis using assms by (simp add: try_reset_def)
next
  case (Some actor)
  obtain r1 s1 where rem: "remote actor (Inr (CallReset seed options)) s = (r1, s1)"
    by (cases "remote actor (Inr (CallReset seed options)) s")
  have fr: "pending s1 = pending s"
    using remote_pending [OF rem] by simp
  have fresh: "actor \<notin> snd ` set (pending s)"
    using assms(3) Some by (simp add: reset_allowed_def idle_def)
  show ?thesis
    using assms(1,2) Some rem fr update_range_distinct [OF assms(2) fresh]
    by (cases r1) (auto simp: try_reset_def)
qed

lemma reachable_pending_distinct:
  "reachable E s \<Longrightarrow> distinct (map snd (pending s))"
proof (induction rule: reachable.induct)
  case (r_init n multi existing_envs worker restart s)
  then show ?case by (rule init_pending_distinct)
next
  case (r_poll s waits res r s')
  obtain ready where w: "wait_loop waits = Some ready"
    using r_poll.hyps(2) by (auto simp: poll_def split: option.splits)
  have "s' = snd (poll_loop E res ready s empty_acc)"
    using r_poll.hyps(2) w by (auto simp: poll_def split: prod.splits sum.splits)
  then show ?case
    using poll_loop_pending_distinct [OF r_poll.IH] by simp
next
  case (r_send s action_dict r s')
  then show ?case
    by (auto simp: send_allowed_def idle_def list_all_iff
        intro: send_actions_pending_distinct)
next
  case (r_reset s env_id seed options r s')
  then show ?case
    by (auto intro: try_reset_pending_distinct)
next
  case (r_restart s env_id r s')
  have "s' = snd (try_restart E env_id s)"
    using r_restart.hyps(2) by simp
  then show ?case using r_restart.IH by simp
qed

lemma list_index_Some: "list_index xs a = Some i \<Longrightarrow> i < length xs \<and> xs ! i = a"
  by (induction xs arbitrary: i) (auto split: if_splits)

lemma filter_at_most_one:
  "distinct (map f xs) \<Longrightarrow> \<forall>x \<in> set xs. P x \<longrightarrow> f x = c \<Longrightarrow> length (filter P xs) \<le> 1"
proof (induction xs)
  case Nil
  show ?case by simp
next
  case (Cons x xs)
  show ?case
  proof (cases "P x")
    case False
    then show ?thesis using Cons by simp
  next
    case True
    then have "f x = c" using Cons.prems(2) by simp
    then have "\<forall>y \<in> set xs. \<not> P y"
      using Cons.prems by (auto simp: image_iff)
    then have "filter P xs = []"
      by (simp add: filter_empty_conv)
    then show ?thesis using True by simp
  qed
qed

text \<open>
  C9. In every dispatcher reachable under the discipline, at most one entry of the
  Pending Table has a given slot as its target.
\<close>

theorem C9_one_outstanding_per_worker:
  assumes "reachable E s"
  shows "length (outstanding s env_id) \<le> 1"
proof -
  have d: "distinct (map snd (pending s))"
    by (rule reachable_pending_distinct [OF assms])
  have "\<forall>p \<in> set (pending s).
      list_index (actors s) (snd p) = Some env_id \<longrightarrow> snd p = actors s ! env_id"
    by (auto dest: list_index_Some)
  then show ?thesis
    unfolding outstanding_def by (rule filter_at_most_one [OF d])
qed

theorem C9_one_outstanding_per_worker_witness:
  "reachable E0 pool3_sent \<and> length (outstanding pool3_sent 0) \<le> 1
   \<and> outstanding pool3_sent 0 = [(3, ActorHandle 0)]"
proof -
  have i: "init E0 3 True [ActorHandle 0, ActorHandle 1, ActorHandle 2] False False =
      Inr (pool3 False)"
    by (simp add: init_def E0_def is_actor_def extend_actors.simps remote_def pool3_def)
  have r0: "reachable E0 (pool3 False)"
    by (rule r_init [OF i]) (simp add: pool3_def)
  obtain r where p: "poll E0 [[0, 1, 2]] (\<lambda>h. Returns reset_a) (pool3 False) = Some (r, pool3_idle)"
    by (simp add: poll_def pool3_def pool3_idle_def reset_a_def poll_body_def
        get_or_restart_def normalize_ret_def decode_multi_def reset_defaults_def
        dict_keys_def empty_acc_def)
  have r1: "reachable E0 pool3_idle"
    by (rule r_poll [OF r0 p])
  have ok: "send_allowed pool3_idle [(0, VDict [(KStr ''a'', VInt 1)])]"
    by (simp add: send_allowed_def targets_def List.map_filter_simps pool3_idle_def pool3_def
        py_nth_def py_pos_def idle_def)
  have sd: "send_actions [(0, VDict [(KStr ''a'', VInt 1)])] pool3_idle = (Inr (), pool3_sent)"
    by (simp add: pool3_def pool3_idle_def pool3_sent_def py_nth_def py_pos_def remote_def)
  have r2: "reachable E0 pool3_sent"
    by (rule r_send [OF r1 ok sd])
  have o: "outstanding pool3_sent 0 = [(3, ActorHandle 0)]"
    by (simp add: outstanding_def pool3_sent_def pool3_idle_def pool3_def)
  show ?thesis
    using C9_one_outstanding_per_worker [OF r2, of 0] r2 o by simp
qed

section \<open>The keys of a batch\<close>

lemma make_sub_env_fresh:
  "make_sub_env E idx s = (Inr new, s') \<Longrightarrow> fresh_workers E A \<Longrightarrow> new \<notin> A"
  by (auto simp: make_sub_env_def Let_def fresh_workers_def
      split: if_splits sum.splits option.splits)

lemma fresh_workers_mono: "A \<subseteq> B \<Longrightarrow> fresh_workers E B \<Longrightarrow> fresh_workers E A"
  by (auto simp: fresh_workers_def)

lemma py_nth_nat: "i < length xs \<Longrightarrow> py_nth xs (int i) = Some (xs ! i)"
  by (simp add: py_nth_def py_pos_def)

lemma py_set_nat: "i < length xs \<Longrightarrow> py_set xs (int i) v = xs[i := v]"
  by (simp add: py_set_def py_pos_def)

lemma try_restart_actors:
  assumes "try_restart E (int i) s = (Inr u, s')" and "i < length (actors s)"
  shows "\<exists>new. actors s' = (actors s)[i := new] \<and> (\<forall>A. fresh_workers E A \<longrightarrow> new \<notin> A)"
proof -
  let ?a = "actors s ! i"
  let ?s1 = "if make_env_creates_actors s then snd (remote ?a (Inr CallClose) s) else s"
  obtain r2 s2 where t: "remote ?a (Inr CallTerminate) ?s1 = (r2, s2)"
    by (cases "remote ?a (Inr CallTerminate) ?s1")
  have a2: "actors s2 = actors s"
    using remote_pending [OF t] by simp
  obtain r3 s3 where m: "make_sub_env E (int i) s2 = (r3, s3)"
    by (cases "make_sub_env E (int i) s2")
  have a3: "actors s3 = actors s"
    using make_sub_env_frame [OF m] a2 by simp
  from assms t m obtain h new where "r2 = Inr h" and r3: "r3 = Inr new"
    and s': "s' = s3\<lparr>actors := py_set (actors s3) (int i) new\<rparr>"
    by (cases r2; cases r3; cases "make_env_creates_actors s")
       (auto simp: try_restart_def Let_def py_nth_nat)
  have "actors s' = (actors s)[i := new]"
    using s' a3 assms(2) by (simp add: py_set_nat)
  moreover have "\<forall>A. fresh_workers E A \<longrightarrow> new \<notin> A"
    using make_sub_env_fresh m r3 by blast
  ultimately show ?thesis by blast
qed

lemma get_or_restart_Inr:
  assumes "get_or_restart E res i h s = (Inr ret, s')" and "i < length (actors s)"
  shows "pending s' = pending s
         \<and> ((\<forall>c a. res h \<noteq> Raises c a) \<longrightarrow> actors s' = actors s)
         \<and> (actors s' = actors s
              \<or> (\<exists>new. actors s' = (actors s)[i := new]
                    \<and> (\<forall>A. fresh_workers E A \<longrightarrow> new \<notin> A)))"
proof (cases "res h")
  case (Returns v)
  then have "s' = s"
    using assms(1) by (simp add: get_or_restart_def)
  then show ?thesis using Returns by auto
next
  case (Raises c a)
  obtain r1 s1 where t: "try_restart E (int i) s = (r1, s1)"
    by (cases "try_restart E (int i) s")
  have s1: "s1 = snd (try_restart E (int i) s)"
    using t by simp
  from assms(1) Raises t have s': "s' = s1" and "\<exists>u. r1 = Inr u"
    by (auto simp: get_or_restart_def split: if_splits list.splits sum.splits)
  then obtain u where "try_restart E (int i) s = (Inr u, s')"
    using t by auto
  from try_restart_actors [OF this assms(2)] show ?thesis
    using Raises by (auto simp: s' s1)
qed

lemma poll_body_Inr:
  assumes "poll_body E res h s b = (Inr b1, s1)"
  shows "\<exists>a i. map_of (pending s) h = Some a \<and> list_index (actors s) a = Some i
           \<and> env_ids b1 = insert i (env_ids b)
           \<and> (\<forall>K. keys_are b K \<longrightarrow> keys_are b1 (insert i K))
           \<and> pending s1 = AList.delete h (pending s)
           \<and> ((\<forall>c a. res h \<noteq> Raises c a) \<longrightarrow> actors s1 = actors s)
           \<and> (actors s1 = actors s
                \<or> (\<exists>new. actors s1 = (actors s)[i := new]
                      \<and> (\<forall>A. fresh_workers E A \<longrightarrow> new \<notin> A)))"
proof -
  from assms obtain a where a: "map_of (pending s) h = Some a"
    by (auto simp: poll_body_def split: option.splits)
  let ?s0 = "s\<lparr>pending := AList.delete h (pending s)\<rparr>"
  from assms a obtain i where i: "list_index (actors s) a = Some i"
    by (auto simp: poll_body_def Let_def split: option.splits)
  have len: "i < length (actors ?s0)"
    using list_index_Some [OF i] by simp
  obtain r2 s2 where g: "get_or_restart E res i h ?s0 = (r2, s2)"
    by (cases "get_or_restart E res i h ?s0")
  from assms a i g obtain ret where r2: "r2 = Inr ret"
    by (cases r2) (auto simp: poll_body_def Let_def)
  have s2: "s2 = s1"
    using assms a i g r2 by (auto simp: poll_body_def Let_def split: sum.splits)
  obtain ob rew tm tc nf where
    n: "normalize_ret (make_env_creates_actors s2) (multiagent s2) ret = Inr (ob, rew, tm, tc, nf)"
    using assms a i g r2 by (auto simp: poll_body_def Let_def split: sum.splits)
  have b1: "b1 = \<lparr>obs = AList.update i ob (obs b), rewards = AList.update i rew (rewards b),
      terminateds = AList.update i tm (terminateds b),
      truncateds = AList.update i tc (truncateds b),
      infos = AList.update i nf (infos b), env_ids = insert i (env_ids b)\<rparr>"
    using assms a i g r2 n by (simp add: poll_body_def Let_def)
  have keys: "\<forall>K. keys_are b K \<longrightarrow> keys_are b1 (insert i K)"
    by (simp add: keys_are_def b1 dom_update)
  from get_or_restart_Inr [OF g [unfolded r2] len] show ?thesis
    using a i keys by (simp add: b1 s2 [symmetric])
qed

lemma poll_loop_keys:
  "poll_loop E res hs s b = (Inr b', s') \<Longrightarrow> keys_are b (env_ids b)
     \<Longrightarrow> keys_are b' (env_ids b')"
proof (induction hs arbitrary: s b)
  case Nil
  then show ?case by simp
next
  case (Cons h hs)
  obtain r s1 where step: "poll_body E res h s b = (r, s1)"
    by (cases "poll_body E res h s b")
  from Cons.prems(1) step obtain b1 where r: "r = Inr b1"
    and rest: "poll_loop E res hs s1 b1 = (Inr b', s')"
    by (cases r) auto
  from poll_body_Inr [OF step [unfolded r]] Cons.prems(2)
  have "keys_are b1 (env_ids b1)" by auto
  from Cons.IH [OF rest this] show ?case .
qed

lemma poll_loop_in_pending:
  "poll_loop E res hs s b = (Inr b', s') \<Longrightarrow> h \<in> set hs \<Longrightarrow> map_of (pending s) h \<noteq> None"
proof (induction hs arbitrary: s b)
  case Nil
  then show ?case by simp
next
  case (Cons x hs)
  obtain r s1 where step: "poll_body E res x s b = (r, s1)"
    by (cases "poll_body E res x s b")
  from Cons.prems(1) step obtain b1 where r: "r = Inr b1"
    and rest: "poll_loop E res hs s1 b1 = (Inr b', s')"
    by (cases r) auto
  from poll_body_Inr [OF step [unfolded r]]
  have x: "map_of (pending s) x \<noteq> None" and p1: "pending s1 = AList.delete x (pending s)"
    by auto
  show ?case
  proof (cases "h = x")
    case True
    then show ?thesis using x by simp
  next
    case False
    then have "h \<in> set hs" using Cons.prems(2) by simp
    from Cons.IH [OF rest this] show ?thesis
      by (simp add: p1 delete_conv' split: if_splits)
  qed
qed

lemma list_index_update_other:
  "list_index xs a = Some i \<Longrightarrow> a' \<noteq> a \<Longrightarrow> a' \<noteq> new
     \<Longrightarrow> list_index (xs[i := new]) a' = list_index xs a'"
proof (induction xs arbitrary: i)
  case Nil
  then show ?case by simp
next
  case (Cons x xs)
  show ?case
  proof (cases "x = a")
    case True
    then show ?thesis using Cons.prems by simp
  next
    case False
    then obtain j where j: "list_index xs a = Some j" and i: "i = Suc j"
      using Cons.prems(1) by auto
    show ?thesis
      using Cons.IH [OF j Cons.prems(2,3)] by (simp add: i)
  qed
qed

lemma range_distinct_keys:
  assumes "distinct (map snd al)" and "map_of al h = Some a" and "map_of al h' = Some a'"
    and "h \<noteq> h'"
  shows "a \<noteq> a'"
proof
  assume "a = a'"
  have in1: "(h, a) \<in> set al" and in2: "(h', a') \<in> set al"
    using assms(2,3) by (auto dest: map_of_SomeD)
  have "inj_on snd (set al)"
    using assms(1) by (simp add: distinct_map)
  then have "(h, a) = (h', a')"
    using in1 in2 \<open>a = a'\<close> inj_onD [of snd "set al" "(h, a)" "(h', a')"] by simp
  then show False using assms(4) by simp
qed

lemma poll_loop_env_ids:
  "poll_loop E res hs s b = (Inr b', s') \<Longrightarrow>
     (\<forall>h \<in> set hs. \<forall>c a. res h \<noteq> Raises c a)
       \<or> (distinct (map snd (pending s)) \<and> fresh_workers E (snd ` set (pending s)))
   \<Longrightarrow> env_ids b' = env_ids b \<union> set (List.map_filter (slot s) hs)"
proof (induction hs arbitrary: s b)
  case Nil
  then show ?case by (simp add: List.map_filter_simps)
next
  case (Cons x hs)
  obtain r s1 where step: "poll_body E res x s b = (r, s1)"
    by (cases "poll_body E res x s b")
  from Cons.prems(1) step obtain b1 where r: "r = Inr b1"
    and rest: "poll_loop E res hs s1 b1 = (Inr b', s')"
    by (cases r) auto
  from poll_body_Inr [OF step [unfolded r]] obtain a i where
    a: "map_of (pending s) x = Some a" and i: "list_index (actors s) a = Some i"
    and ids: "env_ids b1 = insert i (env_ids b)"
    and p1: "pending s1 = AList.delete x (pending s)"
    and quiet: "(\<forall>c a. res x \<noteq> Raises c a) \<longrightarrow> actors s1 = actors s"
    and acts: "actors s1 = actors s
        \<or> (\<exists>new. actors s1 = (actors s)[i := new]
              \<and> (\<forall>A. fresh_workers E A \<longrightarrow> new \<notin> A))"
    by blast
  have sub: "snd ` set (pending s1) \<subseteq> snd ` set (pending s)"
    by (auto simp: p1 AList.delete_eq)
  have cond1: "(\<forall>h \<in> set hs. \<forall>c a. res h \<noteq> Raises c a)
       \<or> (distinct (map snd (pending s1)) \<and> fresh_workers E (snd ` set (pending s1)))"
  proof (rule disjE [OF Cons.prems(2)])
    assume "\<forall>h \<in> set (x # hs). \<forall>c a. res h \<noteq> Raises c a"
    then show ?thesis by simp
  next
    assume c2: "distinct (map snd (pending s)) \<and> fresh_workers E (snd ` set (pending s))"
    then have "distinct (map snd (pending s1))"
      by (simp add: p1 delete_range_distinct)
    moreover have "fresh_workers E (snd ` set (pending s1))"
      using c2 sub by (blast intro: fresh_workers_mono)
    ultimately show ?thesis by blast
  qed
  have same: "slot s1 h = slot s h" if h: "h \<in> set hs" for h
  proof -
    from poll_loop_in_pending [OF rest h] obtain a' where a': "map_of (pending s1) h = Some a'"
      by auto
    then have hx: "h \<noteq> x" and a'0: "map_of (pending s) h = Some a'"
      by (auto simp: p1 delete_conv' split: if_splits)
    have "list_index (actors s1) a' = list_index (actors s) a'"
    proof (rule disjE [OF Cons.prems(2)])
      assume "\<forall>h \<in> set (x # hs). \<forall>c a. res h \<noteq> Raises c a"
      then show ?thesis using quiet by simp
    next
      assume c2: "distinct (map snd (pending s)) \<and> fresh_workers E (snd ` set (pending s))"
      have ne: "a' \<noteq> a"
        using range_distinct_keys [of "pending s" x a h a'] c2 a a'0 hx by auto
      have "a' \<in> snd ` set (pending s)"
        using a'0 by (force dest: map_of_SomeD)
      then have "\<And>new. \<forall>A. fresh_workers E A \<longrightarrow> new \<notin> A \<Longrightarrow> a' \<noteq> new"
        using c2 by auto
      then show ?thesis
        using acts list_index_update_other [OF i ne] by auto
    qed
    then show ?thesis
      by (simp add: slot_def a' a'0)
  qed
  have "List.map_filter (slot s1) hs = List.map_filter (slot s) hs"
    using same by (simp add: List.map_filter_def cong: filter_cong map_cong)
  moreover have "slot s x = Some i"
    by (simp add: slot_def a i)
  ultimately show ?case
    using Cons.IH [OF rest cond1] ids by (simp add: List.map_filter_simps)
qed

text \<open>
  C3. Of a \<^verbatim>\<open>poll\<close> that returns, the five mappings have the same keys, the slots
  \<^verbatim>\<open>env_ids\<close> whose object references the call resolved, and the sixth mapping is
  empty. The slots are those the Pending Table gave the ready references before the call,
  when no task of the round failed, or when no worker has two entries in the table and
  the factory builds new workers.
\<close>

theorem C3_batch_keys:
  assumes "poll E waits res s = Some (Inr (ob, rew, tm, tc, nf, extras), s')"
    and "wait_loop waits = Some ready"
  shows "fst ` set ob = poll_env_ids E waits res s
         \<and> fst ` set rew = poll_env_ids E waits res s
         \<and> fst ` set tm = poll_env_ids E waits res s
         \<and> fst ` set tc = poll_env_ids E waits res s
         \<and> fst ` set nf = poll_env_ids E waits res s
         \<and> extras = []
         \<and> ((\<forall>h \<in> set ready. \<forall>c a. res h \<noteq> Raises c a)
              \<or> (distinct (map snd (pending s)) \<and> fresh_workers E (snd ` set (pending s)))
            \<longrightarrow> poll_env_ids E waits res s = set (List.map_filter (slot s) ready))"
proof -
  obtain b where loop: "poll_loop E res ready s empty_acc = (Inr b, s')"
    and batch: "ob = obs b" "rew = rewards b" "tm = terminateds b" "tc = truncateds b"
      "nf = infos b" "extras = []"
    using assms by (auto simp: poll_def split: prod.splits sum.splits)
  have ids: "poll_env_ids E waits res s = env_ids b"
    using assms(2) loop by (simp add: poll_env_ids_def)
  have "keys_are empty_acc (env_ids empty_acc)"
    by (simp add: keys_are_def empty_acc_def)
  from poll_loop_keys [OF loop this] have k: "keys_are b (env_ids b)" .
  have e: "env_ids empty_acc = {}"
    by (simp add: empty_acc_def)
  have "(\<forall>h \<in> set ready. \<forall>c a. res h \<noteq> Raises c a)
              \<or> (distinct (map snd (pending s)) \<and> fresh_workers E (snd ` set (pending s)))
            \<longrightarrow> env_ids b = set (List.map_filter (slot s) ready)"
    using poll_loop_env_ids [OF loop] e by simp
  then show ?thesis
    using k by (simp add: ids batch keys_are_def)
qed

theorem C3_batch_keys_witness:
  "map_option fst (poll E0 [[], [0, 1]] res3 (pool3 True)) =
     Some (Inr ([(0, VDict [(KStr ''a'', VObj 7)]), (1, VExc ''RuntimeError'' [VStr ''boom''])],
                [(0, VDict [(KStr ''a'', VInt 0)]), (1, VDict [])],
                [(0, VDict [(ALL_KEY, VBool False)]), (1, VDict [(ALL_KEY, VBool True)])],
                [(0, VDict [(ALL_KEY, VBool False)]), (1, VDict [(ALL_KEY, VBool False)])],
                [(0, VDict []), (1, VDict [])], []))
   \<and> poll_env_ids E0 [[], [0, 1]] res3 (pool3 True) = {0, 1}
   \<and> set (List.map_filter (slot (pool3 True)) [0, 1]) = {0, 1}"
proof -
  have run: "poll E0 [[], [0, 1]] res3 (pool3 True) =
      Some (Inr ([(0, VDict [(KStr ''a'', VObj 7)]), (1, VExc ''RuntimeError'' [VStr ''boom''])],
                 [(0, VDict [(KStr ''a'', VInt 0)]), (1, VDict [])],
                 [(0, VDict [(ALL_KEY, VBool False)]), (1, VDict [(ALL_KEY, VBool True)])],
                 [(0, VDict [(ALL_KEY, VBool False)]), (1, VDict [(ALL_KEY, VBool False)])],
                 [(0, VDict []), (1, VDict [])], []),
            (pool3 True)\<lparr>actors := [ActorHandle 0, ActorHandle 100, ActorHandle 2],
               pending := [(2, ActorHandle 2)],
               calls := calls (pool3 True) @
                 [(ActorHandle 1, CallClose), (ActorHandle 1, CallTerminate)],
               built := 1\<rparr>)"
    by (simp add: poll_def pool3_def res3_def boom_def reset_a_def poll_body_def
        get_or_restart_def try_restart_def make_sub_env_def remote_def E0_def
        py_nth_def py_pos_def py_set_def fault_record_def
        normalize_ret_def decode_multi_def reset_defaults_def dict_keys_def empty_acc_def)
  have w: "wait_loop [[], [0, 1]] = Some [0, 1]"
    by simp
  have cond: "distinct (map snd (pending (pool3 True)))
      \<and> fresh_workers E0 (snd ` set (pending (pool3 True)))"
    by (simp add: pool3_def fresh_workers_def E0_def)
  have sl: "set (List.map_filter (slot (pool3 True)) [0, 1]) = {0, 1}"
    by (auto simp: List.map_filter_simps slot_def pool3_def)
  note c3 = C3_batch_keys [OF run w]
  have ids: "poll_env_ids E0 [[], [0, 1]] res3 (pool3 True) = {0, 1}"
    using c3 cond sl by simp
  from run ids sl show ?thesis
    by simp
qed

section \<open>The pool the constructor builds\<close>

lemma make_sub_env_plain:
  "make_env_creates_actors s \<Longrightarrow> \<not> has_worker s \<Longrightarrow>
     make_sub_env E idx s =
       (case make_env E (built s) idx of
          Inl e \<Rightarrow> (Inl e, s\<lparr>built := built s + 1\<rparr>)
        | Inr a \<Rightarrow> (Inr a, s\<lparr>built := built s + 1\<rparr>))"
  by (simp add: make_sub_env_def Let_def split: sum.splits)

lemma make_sub_env_proxy:
  "\<not> make_env_creates_actors s \<Longrightarrow>
     make_sub_env E idx s =
       (Inr (ActorHandle (launch E (built s) idx)), s\<lparr>built := built s + 1\<rparr>)"
  by (simp add: make_sub_env_def Let_def)

lemma extend_actors_grows:
  "extend_actors E s = Inr s' \<Longrightarrow> make_env_creates_actors s \<Longrightarrow> \<not> has_worker s \<Longrightarrow>
     length (actors s') = max (length (actors s)) (nat (num_envs s))
     \<and> take (length (actors s)) (actors s') = actors s
     \<and> built s' = built s + (nat (num_envs s) - length (actors s))
     \<and> (\<forall>k < nat (num_envs s) - length (actors s).
           make_env E (built s + k) (int (length (actors s) + k)) =
             Inr (actors s' ! (length (actors s) + k)))"
proof (induction E s rule: extend_actors.induct)
  case (1 E s)
  let ?len = "length (actors s)"
  show ?case
  proof (cases "int ?len < num_envs s")
    case False
    then have "s' = s"
      using "1.prems"(1) by (simp add: extend_actors.simps)
    then show ?thesis using False by auto
  next
    case True
    obtain r s1 where mk: "make_sub_env E (int ?len) s = (r, s1)"
      by (cases "make_sub_env E (int ?len) s")
    from "1.prems"(1) True mk obtain a where r: "r = Inr a"
      and rest: "extend_actors E (s1\<lparr>actors := actors s1 @ [a]\<rparr>) = Inr s'"
      by (cases r) (auto simp: extend_actors.simps [of E s])
    have made: "make_env E (built s) (int ?len) = Inr a" and s1: "s1 = s\<lparr>built := built s + 1\<rparr>"
      using mk r "1.prems"(2,3) by (auto simp: make_sub_env_plain split: sum.splits)
    let ?s2 = "s1\<lparr>actors := actors s1 @ [a]\<rparr>"
    have ih: "length (actors s') = max (Suc ?len) (nat (num_envs s))
       \<and> take (Suc ?len) (actors s') = actors s @ [a]
       \<and> built s' = Suc (built s) + (nat (num_envs s) - Suc ?len)
       \<and> (\<forall>k < nat (num_envs s) - Suc ?len.
             make_env E (Suc (built s) + k) (int (Suc ?len + k)) =
               Inr (actors s' ! (Suc ?len + k)))"
      using "1.IH" [OF True mk [symmetric] r rest] "1.prems"(2,3) by (simp add: s1)
    have len: "length (actors s') = max ?len (nat (num_envs s))"
      using ih True by linarith
    have tk: "take ?len (actors s') = actors s"
    proof -
      have "take ?len (take (Suc ?len) (actors s')) = take ?len (actors s @ [a])"
        using ih by simp
      then show ?thesis by (simp add: min_def)
    qed
    have at: "actors s' ! ?len = a"
    proof -
      have "take (Suc ?len) (actors s') ! ?len = (actors s @ [a]) ! ?len"
        using ih by simp
      then show ?thesis by simp
    qed
    have bl: "built s' = built s + (nat (num_envs s) - ?len)"
      using ih True by linarith
    have each: "make_env E (built s + k) (int (?len + k)) = Inr (actors s' ! (?len + k))"
      if k: "k < nat (num_envs s) - ?len" for k
    proof (cases k)
      case 0
      then show ?thesis using made at by simp
    next
      case (Suc j)
      then have "j < nat (num_envs s) - Suc ?len"
        using k by linarith
      then have "make_env E (Suc (built s) + j) (int (Suc ?len + j)) =
          Inr (actors s' ! (Suc ?len + j))"
        using ih by blast
      then show ?thesis by (simp add: Suc)
    qed
    show ?thesis
      using len tk bl each by blast
  qed
qed

lemma build_actors_proxies:
  "\<not> make_env_creates_actors s \<Longrightarrow>
     build_actors E is s =
       Inr (map (\<lambda>p. ActorHandle (launch E (fst p) (int (snd p))))
              (zip [built s ..< built s + length is] is),
            s\<lparr>built := built s + length is\<rparr>)"
proof (induction "is" arbitrary: s)
  case Nil
  show ?case by simp
next
  case (Cons i "is")
  have up: "[built s ..< Suc (built s + length is)] =
      built s # [Suc (built s) ..< Suc (built s + length is)]"
    by (simp add: upt_conv_Cons del: upt_Suc)
  show ?case
    using Cons.prems Cons.IH [of "s\<lparr>built := built s + 1\<rparr>"]
    by (simp add: make_sub_env_proxy up del: upt_Suc)
qed

lemma query_spaces_frame:
  "query_spaces E ex s = Inr s' \<Longrightarrow> actors s' = actors s \<and> built s' = built s"
  by (auto simp: query_spaces_def case_prod_beta split: list.splits sum.splits)

text \<open>
  C6. According to the specification, with a non-empty \<^verbatim>\<open>existing_envs\<close> shorter
  than \<^verbatim>\<open>num_envs\<close> the supplied workers fill their slots and only the missing ones are built. When the first
  supplied environment is not an actor handle, the else branch of lines 110--123 builds
  all \<^verbatim>\<open>num_envs\<close> workers as proxies and uses the supplied environment for the
  spaces only: for one local environment and two slots, two workers are built and the
  local environment fills no slot.
\<close>

theorem C6_local_env_discarded_counterexample:
  "init E0 2 False [LocalEnv 0] False False = Inr pool_rebuilt
   \<and> built pool_rebuilt = 2
   \<and> actors pool_rebuilt = [ActorHandle 100, ActorHandle 101]
   \<and> LocalEnv 0 \<notin> set (actors pool_rebuilt)"
proof -
  have "init E0 2 False [LocalEnv 0] False False = Inr pool_rebuilt"
    by (simp add: init_def E0_def is_actor_def remote_def make_sub_env_def query_spaces_def
        pool_rebuilt_def upt_rec)
  then show ?thesis by (simp add: pool_rebuilt_def)
qed

text \<open>
  C6, amended. When the first supplied worker is an actor handle and no rollout worker
  owns the dispatcher, a constructor that returns has kept the supplied workers in
  their slots and has called the factory once for every further slot up to
  \<^verbatim>\<open>num_envs\<close>, in order, so \<^verbatim>\<open>num_envs\<close> minus the number supplied times. When the
  first supplied environment is not an actor handle, the constructor builds a proxy for
  every one of the \<^verbatim>\<open>num_envs\<close> slots and no supplied environment fills a slot.
\<close>

theorem C6_pool_construction:
  assumes "existing_envs \<noteq> []" and "int (length existing_envs) < n"
    and "init E n multi existing_envs worker restart = Inr s"
  shows "(is_actor (hd existing_envs) \<and> \<not> worker \<longrightarrow>
            length (actors s) = nat n
            \<and> take (length existing_envs) (actors s) = existing_envs
            \<and> built s = nat n - length existing_envs
            \<and> (\<forall>k < nat n - length existing_envs.
                  make_env E k (int (length existing_envs + k)) =
                    Inr (actors s ! (length existing_envs + k))))
         \<and> (\<not> is_actor (hd existing_envs) \<longrightarrow>
            actors s = map (\<lambda>i. ActorHandle (launch E i (int i))) [0 ..< nat n]
            \<and> built s = nat n)"
proof (cases "is_actor (hd existing_envs)")
  case True
  let ?s0 = "\<lparr>num_envs = n, multiagent = multi, has_worker = worker,
               restart_failed_sub_environments = restart,
               make_env_creates_actors = True,
               observation_space = VNone, action_space = VNone,
               actors = existing_envs, pending = [], calls = [], built = 0\<rparr>"
  from assms(1,3) True obtain s1 where ext: "extend_actors E ?s0 = Inr s1"
    and rs: "reset_all (actors s1) s1 = Inr s"
    by (auto simp: init_def split: sum.splits)
  have fr: "actors s = actors s1" "built s = built s1"
    using reset_all_frame [OF rs] by simp_all
  show ?thesis
  proof (cases worker)
    case True
    then show ?thesis using \<open>is_actor (hd existing_envs)\<close> by simp
  next
    case False
    have le: "length existing_envs \<le> nat n"
      using assms(2) by linarith
    from extend_actors_grows [OF ext] False le
    show ?thesis using True by (simp add: fr max_def)
  qed
next
  case False
  let ?s0 = "\<lparr>num_envs = n, multiagent = multi, has_worker = worker,
               restart_failed_sub_environments = restart,
               make_env_creates_actors = False,
               observation_space = VNone, action_space = VNone,
               actors = [], pending = [], calls = [], built = 0\<rparr>"
  have b: "build_actors E [0 ..< nat n] ?s0 =
      Inr (map (\<lambda>i. ActorHandle (launch E i (int i))) [0 ..< nat n],
           ?s0\<lparr>built := nat n\<rparr>)"
    using build_actors_proxies [of ?s0 E "[0 ..< nat n]"]
    by (simp add: zip_same_conv_map comp_def)
  from assms(3) False b obtain s1 where
    q: "query_spaces E existing_envs
          (?s0\<lparr>built := nat n,
               actors := map (\<lambda>i. ActorHandle (launch E i (int i))) [0 ..< nat n]\<rparr>) = Inr s1"
    and rs: "reset_all (actors s1) s1 = Inr s"
    by (auto simp: init_def split: sum.splits)
  have "actors s = actors s1" "built s = built s1"
    using reset_all_frame [OF rs] by simp_all
  then show ?thesis
    using query_spaces_frame [OF q] False by simp
qed

theorem C6_pool_construction_witness:
  "init E0 3 False [ActorHandle 0] False False = Inr pool_extended
   \<and> length (actors pool_extended) = 3
   \<and> take 1 (actors pool_extended) = [ActorHandle 0]
   \<and> built pool_extended = 2
   \<and> init E0 2 False [LocalEnv 0] False False = Inr pool_rebuilt
   \<and> actors pool_rebuilt = map (\<lambda>i. ActorHandle (launch E0 i (int i))) [0 ..< 2]
   \<and> built pool_rebuilt = 2"
proof -
  have a: "init E0 3 False [ActorHandle 0] False False = Inr pool_extended"
    by (simp add: init_def E0_def is_actor_def extend_actors.simps remote_def
        make_sub_env_def pool_extended_def)
  have b: "init E0 2 False [LocalEnv 0] False False = Inr pool_rebuilt"
    by (simp add: init_def E0_def is_actor_def remote_def make_sub_env_def query_spaces_def
        pool_rebuilt_def upt_rec)
  have ne: "[ActorHandle 0] \<noteq> []" "[LocalEnv 0] \<noteq> []"
    by simp_all
  have l1: "int (length [ActorHandle 0]) < 3" and l2: "int (length [LocalEnv 0]) < 2"
    by simp_all
  note c1 = C6_pool_construction [OF ne(1) l1 a]
  note c2 = C6_pool_construction [OF ne(2) l2 b]
  have p1: "length (actors pool_extended) = 3 \<and> take 1 (actors pool_extended) = [ActorHandle 0]
      \<and> built pool_extended = 2"
    using c1 by (simp add: is_actor_def)
  have p2: "actors pool_rebuilt = map (\<lambda>i. ActorHandle (launch E0 i (int i))) [0 ..< 2]
      \<and> built pool_rebuilt = 2"
    using c2 by (simp add: is_actor_def)
  from a b p1 p2 show ?thesis by blast
qed

lemma init_with_owning_worker:
  "init E0 2 True [ActorHandle 0] True False = Inl IndexError"
  by (simp add: init_def E0_def is_actor_def extend_actors.simps make_sub_env_def
      py_nth_def py_pos_def)

end
